theory Spec2Isabelle
  imports Main "HOL-Library.Sublist"
begin

section \<open>Regular expressions as the source writes them\<close>

text \<open>
  The JavaScript source decides the shape of strings with regular-expression literals.
  A pattern is embedded as a term of \<open>rx\<close> over the symbols of the string;
  \<open>run r s\<close> lists, in the engine's backtracking order (greedy first), every rest of
  \<open>s\<close> that is left after \<open>r\<close> has matched a prefix of \<open>s\<close>.
\<close>

datatype 'c rx =
    Eps
  | Cls "'c \<Rightarrow> bool"
  | Seq "'c rx" "'c rx"
  | Alt "'c rx" "'c rx"
  | Opt "'c rx"
  | Many "'c \<Rightarrow> bool"

fun run :: "'c rx \<Rightarrow> 'c list \<Rightarrow> 'c list list" where
  "run Eps s = [s]"
| "run (Cls p) [] = []"
| "run (Cls p) (c # cs) = (if p c then [cs] else [])"
| "run (Seq a b) s = concat (map (run b) (run a s))"
| "run (Alt a b) s = run a s @ run b s"
| "run (Opt a) s = run a s @ [s]"
| "run (Many p) [] = [[]]"
| "run (Many p) (c # cs) = (if p c then run (Many p) cs else []) @ [c # cs]"

text \<open>\<open>r{n}\<close>: exactly \<open>n\<close> copies of \<open>r\<close> in sequence.\<close>

primrec times :: "nat \<Rightarrow> 'c rx \<Rightarrow> 'c rx" where
  "times 0 r = Eps"
| "times (Suc n) r = Seq r (times n r)"

text \<open>\<open>r+\<close> over a character class.\<close>

definition many1 :: "('c \<Rightarrow> bool) \<Rightarrow> 'c rx" where
  "many1 p = Seq (Cls p) (Many p)"

text \<open>A literal string, symbol by symbol.\<close>

primrec lit :: "'c list \<Rightarrow> 'c rx" where
  "lit [] = Eps"
| "lit (c # cs) = Seq (Cls (\<lambda>x. x = c)) (lit cs)"

text \<open>\<open>/^r$/.test(s)\<close>: some way of matching consumes the whole string.\<close>

definition test_full :: "'c rx \<Rightarrow> 'c list \<Rightarrow> bool" where
  "test_full r s = ([] \<in> set (run r s))"

text \<open>\<open>/^r/.test(s)\<close>: some prefix of the string matches.\<close>

definition test_prefix :: "'c rx \<Rightarrow> 'c list \<Rightarrow> bool" where
  "test_prefix r s = (run r s \<noteq> [])"

subsection \<open>Character classes\<close>

text \<open>
  The strings that the code only compares, concatenates or matches against ASCII
  classes (plugin ids, link types, URLs, arXiv ids, messages) are HOL strings; their
  character classes are ranges of character codes.
\<close>

definition code :: "char \<Rightarrow> nat" where
  "code c = of_char c"

definition digit :: "char \<Rightarrow> bool" where
  "digit c = (48 \<le> code c \<and> code c \<le> 57)"

definition lower :: "char \<Rightarrow> bool" where
  "lower c = (97 \<le> code c \<and> code c \<le> 122)"

definition upper :: "char \<Rightarrow> bool" where
  "upper c = (65 \<le> code c \<and> code c \<le> 90)"

subsection \<open>JavaScript strings\<close>

text \<open>
  An identifier handed to the manager is an arbitrary JavaScript string: a sequence of
  UTF-16 code units, here the natural numbers below 65536 (a larger number stands for no
  code unit and is in no class). \<open>units\<close> writes an ASCII literal as such a string.
\<close>

type_synonym code_unit = nat

type_synonym js_string = "code_unit list"

definition units :: "string \<Rightarrow> js_string" where
  "units s = map code s"

text \<open>The unit of an ASCII character, as in a character class that names it.\<close>

definition unit_of :: "char \<Rightarrow> code_unit" where
  "unit_of c = code c"

text \<open>\<open>\d\<close>, \<open>[a-z]\<close> and \<open>[A-Z]\<close> on code units.\<close>

definition u_digit :: "code_unit \<Rightarrow> bool" where
  "u_digit n = (48 \<le> n \<and> n \<le> 57)"

definition u_lower :: "code_unit \<Rightarrow> bool" where
  "u_lower n = (97 \<le> n \<and> n \<le> 122)"

definition u_upper :: "code_unit \<Rightarrow> bool" where
  "u_upper n = (65 \<le> n \<and> n \<le> 90)"

text \<open>
  \<open>String.prototype.trim\<close> removes the WhiteSpace and LineTerminator code points of
  ECMAScript from both ends: TAB, LF, VT, FF, CR, SPACE, NBSP, U+1680, U+2000 to U+200A,
  U+2028, U+2029, U+202F, U+205F, U+3000 and U+FEFF.
\<close>

definition js_space :: "code_unit \<Rightarrow> bool" where
  "js_space n =
     (n \<in> {9, 10, 11, 12, 13, 32, 160, 5760, 8232, 8233, 8239, 8287, 12288, 65279}
      \<or> (8192 \<le> n \<and> n \<le> 8202))"

definition trim :: "js_string \<Rightarrow> js_string" where
  "trim s = rev (dropWhile js_space (rev (dropWhile js_space s)))"

section \<open>Identifier classifier (PluginManager._detectIdentifierType)\<close>

datatype id_type = Doi | Arxiv | Bibcode | Inspire | Unknown

text \<open>\<open>/^10\.\d{4,}\//\<close>\<close>

definition doi_rx :: "code_unit rx" where
  "doi_rx =
     Seq (lit (units ''10.'')) (Seq (times 4 (Cls u_digit)) (Seq (Many u_digit) (lit (units ''/''))))"

text \<open>\<open>/^\d{4}\.\d{4,5}(v\d+)?$/\<close>\<close>

definition arxiv_new_rx :: "code_unit rx" where
  "arxiv_new_rx =
     Seq (times 4 (Cls u_digit)) (Seq (lit (units ''.'')) (Seq (times 4 (Cls u_digit))
       (Seq (Opt (Cls u_digit)) (Opt (Seq (lit (units ''v'')) (many1 u_digit))))))"

text \<open>\<open>/^[a-z-]+\/\d{7}$/\<close>\<close>

definition arxiv_old_rx :: "code_unit rx" where
  "arxiv_old_rx =
     Seq (many1 (\<lambda>n. u_lower n \<or> n = unit_of (CHR ''-'')))
       (Seq (lit (units ''/'')) (times 7 (Cls u_digit)))"

text \<open>\<open>/^\d{4}[A-Za-z&.]{5}[A-Za-z0-9.]{9}[A-Z.]$/\<close>\<close>

definition bibcode_rx :: "code_unit rx" where
  "bibcode_rx =
     Seq (times 4 (Cls u_digit))
      (Seq (times 5 (Cls (\<lambda>n. u_upper n \<or> u_lower n \<or> n = unit_of (CHR ''&'')
                              \<or> n = unit_of (CHR ''.''))))
        (Seq (times 9 (Cls (\<lambda>n. u_upper n \<or> u_lower n \<or> u_digit n
                                \<or> n = unit_of (CHR ''.''))))
          (Cls (\<lambda>n. u_upper n \<or> n = unit_of (CHR ''.'')))))"

text \<open>\<open>/^\d+$/\<close>\<close>

definition digits_rx :: "code_unit rx" where
  "digits_rx = many1 u_digit"

definition detectIdentifierType :: "js_string \<Rightarrow> id_type" where
  "detectIdentifierType identifier =
     (let id = trim identifier in
      if test_prefix doi_rx id then Doi
      else if test_full arxiv_new_rx id \<or> test_full arxiv_old_rx id then Arxiv
      else if test_full bibcode_rx id then Bibcode
      else if test_full digits_rx id \<and> length id < 10 then Inspire
      else Unknown)"

section \<open>JavaScript values and objects\<close>

text \<open>
  Plugin data are plain JavaScript objects. A property holds a value of \<open>jsval\<close>; an
  object is the map of its own properties, so a property that is present with the value
  \<open>undefined\<close> differs from one that is absent, as object spread distinguishes them.
\<close>

datatype jsval =
    JUndefined
  | JNull
  | JBool bool
  | JNum int
  | JString string
  | JArray "jsval list"

fun truthy :: "jsval \<Rightarrow> bool" where
  "truthy JUndefined = False"
| "truthy JNull = False"
| "truthy (JBool b) = b"
| "truthy (JNum n) = (n \<noteq> 0)"
| "truthy (JString s) = (s \<noteq> [])"
| "truthy (JArray vs) = True"

type_synonym js_object = "string \<rightharpoonup> jsval"

text \<open>\<open>o[k]\<close>: reading an absent property gives \<open>undefined\<close>.\<close>

definition get_prop :: "js_object \<Rightarrow> string \<Rightarrow> jsval" where
  "get_prop obj k = (case obj k of None \<Rightarrow> JUndefined | Some v \<Rightarrow> v)"

text \<open>\<open>a || b\<close>\<close>

definition js_or :: "jsval \<Rightarrow> jsval \<Rightarrow> jsval" where
  "js_or a b = (if truthy a then a else b)"

fun is_string :: "jsval \<Rightarrow> bool" where
  "is_string (JString s) = True"
| "is_string v = False"

section \<open>Paper factory (types.cjs)\<close>

text \<open>
  \<open>createPaper\<close> builds the object literal
  \<open>{ title: data.title || 'Untitled', authors: data.authors || [], source, sourceId, ...data }\<close>:
  the four leading properties first, then every own property of \<open>data\<close> written over
  them by the spread.
\<close>

definition createPaper :: "js_object \<Rightarrow> string \<Rightarrow> string \<Rightarrow> js_object" where
  "createPaper data source sourceId =
     [''title'' \<mapsto> js_or (get_prop data ''title'') (JString ''Untitled''),
      ''authors'' \<mapsto> js_or (get_prop data ''authors'') (JArray []),
      ''source'' \<mapsto> JString source,
      ''sourceId'' \<mapsto> JString sourceId] ++ data"

section \<open>PDF sources of the ADS plugin (plugins/ads/index.cjs)\<close>

datatype pdf_source_type = ARXIV | PUBLISHER | ADS_SCAN | AUTHOR | OPEN_ACCESS

record pdf_source =
  ps_type :: pdf_source_type
  ps_url :: string
  ps_label :: string
  ps_requiresAuth :: bool
  ps_priority :: nat

text \<open>An esource record of the ADS resolver; each property may be missing.\<close>

record esource =
  link_type :: "string option"
  e_type :: "string option"
  e_url :: "string option"

text \<open>\<open>s.includes(sub)\<close>\<close>

fun includes_str :: "string \<Rightarrow> string \<Rightarrow> bool" where
  "includes_str [] sub = (sub = [])"
| "includes_str (c # cs) sub = (prefix sub (c # cs) \<or> includes_str cs sub)"

text \<open>\<open>s.startsWith(p)\<close>\<close>

definition startsWith :: "string \<Rightarrow> string \<Rightarrow> bool" where
  "startsWith s p = prefix p s"

text \<open>\<open>a || b\<close> on optional strings: a missing or empty string is falsy.\<close>

definition str_truthy :: "string option \<Rightarrow> bool" where
  "str_truthy v = (case v of None \<Rightarrow> False | Some s \<Rightarrow> s \<noteq> [])"

text \<open>\<open>source.link_type || source.type || ''\<close>\<close>

definition linkType_of :: "esource \<Rightarrow> string" where
  "linkType_of source =
     (if str_truthy (link_type source) then the (link_type source)
      else if str_truthy (e_type source) then the (e_type source)
      else [])"

text \<open>
  The body of the \<open>for\<close> loop over the esources: \<open>sources\<close> is the array built so far
  and \<open>priority\<close> the running counter of \<open>priority++\<close>.
\<close>

fun esources_loop :: "esource list \<Rightarrow> pdf_source list \<Rightarrow> nat \<Rightarrow> pdf_source list \<times> nat" where
  "esources_loop [] sources priority = (sources, priority)"
| "esources_loop (source # rest) sources priority =
     (let linkType = linkType_of source; url = e_url source in
      if \<not> str_truthy url \<or> \<not> startsWith (the url) ''http''
      then esources_loop rest sources priority
      else if includes_str linkType ''EPRINT_PDF''
      then esources_loop rest
             (sources @ [\<lparr>ps_type = ARXIV, ps_url = the url, ps_label = ''arXiv PDF'',
                          ps_requiresAuth = False, ps_priority = priority\<rparr>]) (Suc priority)
      else if includes_str linkType ''PUB_PDF''
      then esources_loop rest
             (sources @ [\<lparr>ps_type = PUBLISHER, ps_url = the url, ps_label = ''Publisher PDF'',
                          ps_requiresAuth = True, ps_priority = priority\<rparr>]) (Suc priority)
      else if includes_str linkType ''ADS_PDF''
      then esources_loop rest
             (sources @ [\<lparr>ps_type = ADS_SCAN, ps_url = the url, ps_label = ''ADS Scan'',
                          ps_requiresAuth = False, ps_priority = priority\<rparr>]) (Suc priority)
      else esources_loop rest sources priority)"

text \<open>A letter of a pattern under the \<open>i\<close> flag matches both of its cases.\<close>

definition to_lower :: "char \<Rightarrow> char" where
  "to_lower c = (if upper c then char_of (code c + 32) else c)"

primrec lit_ci :: "string \<Rightarrow> char rx" where
  "lit_ci [] = Eps"
| "lit_ci (c # cs) = Seq (Cls (\<lambda>x. to_lower x = to_lower c)) (lit_ci cs)"

text \<open>
  \<open>s.replace(/^r/, '')\<close>: the pattern can only match at the start; what is left is
  the rest after the engine's first (greedy) match.
\<close>

definition replace_prefix :: "char rx \<Rightarrow> string \<Rightarrow> string" where
  "replace_prefix r s = (case run r s of [] \<Rightarrow> s | rest # others \<Rightarrow> rest)"

text \<open>
  \<open>s.replace(/r$/, '')\<close>: the engine tries the start positions from the left and
  takes the first from which \<open>r\<close> can reach the end of the string.
\<close>

definition replace_suffix :: "char rx \<Rightarrow> string \<Rightarrow> string" where
  "replace_suffix r s =
     (case find (\<lambda>i. test_full r (drop i s)) [0 ..< Suc (length s)] of
        None \<Rightarrow> s
      | Some i \<Rightarrow> take i s)"

text \<open>\<open>/^arXiv:/i\<close> and \<open>/v\d+$/\<close>\<close>

definition arxiv_prefix_rx :: "char rx" where
  "arxiv_prefix_rx = lit_ci ''arXiv:''"

definition version_rx :: "char rx" where
  "version_rx = Seq (lit ''v'') (many1 digit)"

text \<open>\<open>arxivId.replace(/^arXiv:/i, '').replace(/v\d+$/, '')\<close>\<close>

definition cleanId_of :: "string \<Rightarrow> string" where
  "cleanId_of arxivId = replace_suffix version_rx (replace_prefix arxiv_prefix_rx arxivId)"

definition esourcesToPdfSources :: "esource list \<Rightarrow> string \<Rightarrow> string option \<Rightarrow> pdf_source list" where
  "esourcesToPdfSources esources bibcode arxivId =
     (let (sources, priority) = esources_loop esources [] 0 in
      if \<not> list_ex (\<lambda>s. ps_type s = ARXIV) sources \<and> str_truthy arxivId
      then sources @ [\<lparr>ps_type = ARXIV,
                        ps_url = ''https://arxiv.org/pdf/'' @ cleanId_of (the arxivId) @ ''.pdf'',
                        ps_label = ''arXiv PDF'', ps_requiresAuth = False,
                        ps_priority = priority\<rparr>]
      else sources)"

section \<open>Source plugins (types.cjs)\<close>

text \<open>
  Anything can be thrown in JavaScript: an \<open>Error\<close> object with its message, or a
  plain value. A call of a plugin method either returns or throws; for an \<open>async\<close>
  method these are the fulfilment and the rejection of its promise.
\<close>

datatype thrown = ErrorObj string | ThrownValue jsval

datatype 'a outcome = Returns 'a | Throws thrown

record capabilities =
  cap_search :: bool
  cap_lookup :: bool
  cap_references :: bool
  cap_citations :: bool
  cap_pdfDownload :: bool
  cap_bibtex :: bool
  cap_metadata :: bool

datatype capability =
  CapSearch | CapLookup | CapReferences | CapCitations | CapPdfDownload | CapBibtex | CapMetadata

text \<open>\<open>capabilities[capability]\<close>\<close>

fun has_cap :: "capabilities \<Rightarrow> capability \<Rightarrow> bool" where
  "has_cap c CapSearch = cap_search c"
| "has_cap c CapLookup = cap_lookup c"
| "has_cap c CapReferences = cap_references c"
| "has_cap c CapCitations = cap_citations c"
| "has_cap c CapPdfDownload = cap_pdfDownload c"
| "has_cap c CapBibtex = cap_bibtex c"
| "has_cap c CapMetadata = cap_metadata c"

record rate_limit_status =
  remaining :: int
  limit :: int
  resetAt :: int
  retryAfter :: "int option"

record auth_config =
  auth_type :: string

record search_result =
  papers :: "js_object list"
  totalResults :: nat
  nextCursor :: "string option"

text \<open>
  A plugin object. \<open>p_id\<close> and \<open>p_name\<close> are strings, the empty string standing for a
  missing one (the source tests only their truthiness); an object-valued property or a
  method that may be missing is an option. A method that the manager dispatches to is
  the function from the time of the call and its argument to the outcome of the call: what
  a source answers may depend on when it is asked. \<open>'q\<close> is the query type, which the
  manager hands through untouched. Of \<open>getPdfSources\<close>, \<open>downloadPdf\<close>, \<open>getReferences\<close>,
  \<open>getCitations\<close> and \<open>getBibtex\<close> only the presence is recorded. A plugin
  object is taken as a value: its properties do not change while it is registered, and
  its methods do not call back into the manager.
\<close>

record 'q plugin =
  p_id :: string
  p_name :: string
  p_capabilities :: "capabilities option"
  p_auth :: "auth_config option"
  p_getRateLimitStatus :: "rate_limit_status option outcome option"
  p_search :: "(int \<Rightarrow> 'q \<Rightarrow> search_result outcome) option"
  p_getRecord :: "(int \<Rightarrow> js_string \<Rightarrow> js_object option outcome) option"
  p_getByDOI :: "(int \<Rightarrow> js_string \<Rightarrow> js_object option outcome) option"
  p_getByArxiv :: "(int \<Rightarrow> js_string \<Rightarrow> js_object option outcome) option"
  has_getPdfSources :: bool
  has_downloadPdf :: bool
  has_getReferences :: bool
  has_getCitations :: bool
  has_getBibtex :: bool
  p_initialize :: "unit outcome option"
  p_shutdown :: "unit outcome option"

text \<open>\<open>plugin.capabilities?.search\<close> and its siblings: false when there are no capabilities.\<close>

definition declares :: "'q plugin \<Rightarrow> capability \<Rightarrow> bool" where
  "declares plugin c = (case p_capabilities plugin of None \<Rightarrow> False | Some caps \<Rightarrow> has_cap caps c)"

text \<open>\<open>/^[a-z][a-z0-9_-]*$/\<close>\<close>

definition plugin_id_rx :: "char rx" where
  "plugin_id_rx =
     Seq (Cls lower) (Many (\<lambda>c. lower c \<or> digit c \<or> c = CHR ''_'' \<or> c = CHR ''-''))"

text \<open>The \<open>errors\<close> array of \<open>validatePlugin\<close>; \<open>valid\<close> is \<open>errors.length === 0\<close>.\<close>

definition validatePlugin_errors :: "'q plugin \<Rightarrow> string list" where
  "validatePlugin_errors plugin =
     (if p_id plugin = [] then [''Missing required property: id''] else [])
   @ (if p_name plugin = [] then [''Missing required property: name''] else [])
   @ (if p_capabilities plugin = None then [''Missing required property: capabilities''] else [])
   @ (if p_auth plugin = None then [''Missing required property: auth''] else [])
   @ (if declares plugin CapSearch \<and> p_search plugin = None
      then [''Plugin declares search capability but has no search() method''] else [])
   @ (if declares plugin CapLookup \<and> p_getRecord plugin = None
      then [''Plugin declares lookup capability but has no getRecord() method''] else [])
   @ (if declares plugin CapPdfDownload
      then (if \<not> has_getPdfSources plugin
            then [''Plugin declares pdfDownload capability but has no getPdfSources() method'']
            else [])
         @ (if \<not> has_downloadPdf plugin
            then [''Plugin declares pdfDownload capability but has no downloadPdf() method'']
            else [])
      else [])
   @ (if p_id plugin \<noteq> [] \<and> \<not> test_full plugin_id_rx (p_id plugin)
      then [''Plugin ID must be lowercase alphanumeric with optional - or _''] else [])"

definition validatePlugin_valid :: "'q plugin \<Rightarrow> bool" where
  "validatePlugin_valid plugin = (validatePlugin_errors plugin = [])"

section \<open>Plugin manager (manager.cjs)\<close>

record 'q registration =
  reg_id :: string
  reg_plugin :: "'q plugin"
  enabled :: bool
  registeredAt :: int

text \<open>
  The manager's fields. \<open>plugins\<close> is a JavaScript \<open>Map\<close>, which iterates in insertion
  order: an association list with the newest key last. \<open>activePluginId\<close> is \<open>None\<close>
  for \<open>null\<close>. \<open>lastRequestTime\<close> is only read by key.
\<close>

record 'q manager =
  plugins :: "(string \<times> 'q registration) list"
  activePluginId :: "string option"
  lastRequestTime :: "string \<rightharpoonup> int"

text \<open>The constructor.\<close>

definition new_manager :: "'q manager" where
  "new_manager = \<lparr>plugins = [], activePluginId = None, lastRequestTime = Map.empty\<rparr>"

text \<open>\<open>Map.prototype.has\<close>, \<open>get\<close>, \<open>set\<close>, \<open>delete\<close> and \<open>values\<close> on the association list.\<close>

definition map_has :: "(string \<times> 'v) list \<Rightarrow> string \<Rightarrow> bool" where
  "map_has kvs k = (k \<in> set (map fst kvs))"

definition map_get :: "(string \<times> 'v) list \<Rightarrow> string \<Rightarrow> 'v option" where
  "map_get kvs k = map_of kvs k"

fun map_set :: "(string \<times> 'v) list \<Rightarrow> string \<Rightarrow> 'v \<Rightarrow> (string \<times> 'v) list" where
  "map_set [] k v = [(k, v)]"
| "map_set ((k', v') # kvs) k v = (if k' = k then (k, v) # kvs else (k', v') # map_set kvs k v)"

definition map_delete :: "(string \<times> 'v) list \<Rightarrow> string \<Rightarrow> (string \<times> 'v) list" where
  "map_delete kvs k = filter (\<lambda>kv. fst kv \<noteq> k) kvs"

definition map_values :: "(string \<times> 'v) list \<Rightarrow> 'v list" where
  "map_values kvs = map snd kvs"

text \<open>
  Every operation returns the outcome of the call together with the manager as the call
  leaves it, also when it throws. Event emission and logging do not touch the manager's
  fields and are left out; no listener is taken to throw.
\<close>

definition quoted :: "string \<Rightarrow> string" where
  "quoted s = [CHR 0x22] @ s @ [CHR 0x22]"

definition not_registered :: "string \<Rightarrow> thrown" where
  "not_registered pluginId = ErrorObj (''Plugin '' @ quoted pluginId @ '' is not registered'')"

fun join :: "string \<Rightarrow> string list \<Rightarrow> string" where
  "join sep [] = []"
| "join sep [x] = x"
| "join sep (x # y # ys) = x @ sep @ join sep (y # ys)"

definition setActive :: "'q manager \<Rightarrow> string \<Rightarrow> unit outcome \<times> 'q manager" where
  "setActive m pluginId =
     (if \<not> map_has (plugins m) pluginId then (Throws (not_registered pluginId), m)
      else (Returns (), m\<lparr>activePluginId := Some pluginId\<rparr>))"

definition register :: "'q manager \<Rightarrow> 'q plugin \<Rightarrow> int \<Rightarrow> unit outcome \<times> 'q manager" where
  "register m plugin now =
     (if \<not> validatePlugin_valid plugin
      then (Throws (ErrorObj (''Invalid plugin '' @ quoted (p_id plugin) @ '': ''
                      @ join '', '' (validatePlugin_errors plugin))), m)
      else if map_has (plugins m) (p_id plugin)
      then (Throws (ErrorObj (''Plugin '' @ quoted (p_id plugin) @ '' is already registered'')), m)
      else
        let m1 = m\<lparr>plugins := map_set (plugins m) (p_id plugin)
                     \<lparr>reg_id = p_id plugin, reg_plugin = plugin, enabled = True,
                      registeredAt = now\<rparr>\<rparr>
        in if activePluginId m1 = None then setActive m1 (p_id plugin) else (Returns (), m1))"

text \<open>\<open>get(pluginId)\<close>: \<open>registration?.plugin || null\<close>\<close>

definition get :: "'q manager \<Rightarrow> string \<Rightarrow> 'q plugin option" where
  "get m pluginId = map_option reg_plugin (map_get (plugins m) pluginId)"

text \<open>\<open>getActive()\<close>: \<open>if (!this.activePluginId) return null\<close>, else \<open>get\<close>.\<close>

definition getActive :: "'q manager \<Rightarrow> 'q plugin option" where
  "getActive m =
     (case activePluginId m of
        None \<Rightarrow> None
      | Some a \<Rightarrow> if a = [] then None else get m a)"

text \<open>
  \<open>list({enabledOnly, capability})\<close>: the filter callback reads
  \<open>reg.plugin.capabilities[capability]\<close> only of a registration that the
  \<open>enabledOnly\<close> test let through and only when a capability is asked for; a plugin
  without capabilities makes that read throw a \<open>TypeError\<close>.
\<close>

definition no_capabilities :: thrown where
  "no_capabilities = ErrorObj ''TypeError: Cannot read properties of undefined''"

fun list_filter :: "bool \<Rightarrow> capability option \<Rightarrow> 'q registration list \<Rightarrow> 'q registration list outcome" where
  "list_filter enabledOnly capability [] = Returns []"
| "list_filter enabledOnly capability (reg # regs) =
     (if enabledOnly \<and> \<not> enabled reg then list_filter enabledOnly capability regs
      else case capability of
        None \<Rightarrow>
          (case list_filter enabledOnly capability regs of
             Throws e \<Rightarrow> Throws e | Returns rs \<Rightarrow> Returns (reg # rs))
      | Some c \<Rightarrow>
          (case p_capabilities (reg_plugin reg) of
             None \<Rightarrow> Throws no_capabilities
           | Some caps \<Rightarrow>
               (case list_filter enabledOnly capability regs of
                  Throws e \<Rightarrow> Throws e
                | Returns rs \<Rightarrow> Returns (if has_cap caps c then reg # rs else rs))))"

definition list_plugins :: "'q manager \<Rightarrow> bool \<Rightarrow> capability option \<Rightarrow> 'q plugin list outcome" where
  "list_plugins m enabledOnly capability =
     (case list_filter enabledOnly capability (map_values (plugins m)) of
        Throws e \<Rightarrow> Throws e
      | Returns regs \<Rightarrow> Returns (map reg_plugin regs))"

text \<open>\<open>xs.length > 0 ? xs[0].id : null\<close>\<close>

definition first_id :: "'q plugin list \<Rightarrow> string option" where
  "first_id xs = (case xs of [] \<Rightarrow> None | p # ps \<Rightarrow> Some (p_id p))"

text \<open>
  \<open>unregister\<close>: the plugin's \<open>shutdown\<close> is awaited inside \<open>try\<close>/\<open>catch\<close> and its
  outcome dropped, so it does not show in the result.
\<close>

definition unregister :: "'q manager \<Rightarrow> string \<Rightarrow> unit outcome \<times> 'q manager" where
  "unregister m pluginId =
     (case map_get (plugins m) pluginId of
        None \<Rightarrow> (Throws (not_registered pluginId), m)
      | Some registration \<Rightarrow>
          let m1 = m\<lparr>plugins := map_delete (plugins m) pluginId\<rparr>
          in if activePluginId m1 = Some pluginId
             then (case list_plugins m1 False None of
                     Throws e \<Rightarrow> (Throws e, m1)
                   | Returns others \<Rightarrow> (Returns (), m1\<lparr>activePluginId := first_id others\<rparr>))
             else (Returns (), m1))"

text \<open>\<open>registration.enabled = b\<close> on the registration object held by the map.\<close>

definition set_enabled :: "(string \<times> 'q registration) list \<Rightarrow> string \<Rightarrow> bool \<Rightarrow> (string \<times> 'q registration) list" where
  "set_enabled kvs k b = map (\<lambda>(k', reg). if k' = k then (k', reg\<lparr>enabled := b\<rparr>) else (k', reg)) kvs"

definition enable :: "'q manager \<Rightarrow> string \<Rightarrow> unit outcome \<times> 'q manager" where
  "enable m pluginId =
     (case map_get (plugins m) pluginId of
        None \<Rightarrow> (Throws (not_registered pluginId), m)
      | Some registration \<Rightarrow> (Returns (), m\<lparr>plugins := set_enabled (plugins m) pluginId True\<rparr>))"

definition disable :: "'q manager \<Rightarrow> string \<Rightarrow> unit outcome \<times> 'q manager" where
  "disable m pluginId =
     (case map_get (plugins m) pluginId of
        None \<Rightarrow> (Throws (not_registered pluginId), m)
      | Some registration \<Rightarrow>
          let m1 = m\<lparr>plugins := set_enabled (plugins m) pluginId False\<rparr>
          in if activePluginId m1 = Some pluginId
             then (case list_plugins m1 True None of
                     Throws e \<Rightarrow> (Throws e, m1)
                   | Returns enabled_ones \<Rightarrow> (Returns (), m1\<lparr>activePluginId := first_id enabled_ones\<rparr>))
             else (Returns (), m1))"

text \<open>
  \<open>initialize\<close>: a registration whose plugin has an \<open>initialize\<close> method that throws
  is marked disabled; the others are left as they are.
\<close>

definition initialize :: "'q manager \<Rightarrow> unit outcome \<times> 'q manager" where
  "initialize m =
     (Returns (),
      m\<lparr>plugins := map (\<lambda>(k, reg).
             (case p_initialize (reg_plugin reg) of
                Some (Throws err) \<Rightarrow> (k, reg\<lparr>enabled := False\<rparr>)
              | Some (Returns u) \<Rightarrow> (k, reg)
              | None \<Rightarrow> (k, reg))) (plugins m)\<rparr>)"

text \<open>\<open>shutdown\<close>: every plugin's \<open>shutdown\<close> outcome is dropped; then the registry is cleared.\<close>

definition shutdown :: "'q manager \<Rightarrow> unit outcome \<times> 'q manager" where
  "shutdown m = (Returns (), m\<lparr>plugins := [], activePluginId := None\<rparr>)"

text \<open>A call of one of the registry operations, and a sequence of such calls.\<close>

datatype 'q operation =
    Register "'q plugin" int
  | Unregister string
  | SetActive string
  | Enable string
  | Disable string
  | Initialize
  | Shutdown

fun apply_operation :: "'q manager \<Rightarrow> 'q operation \<Rightarrow> unit outcome \<times> 'q manager" where
  "apply_operation m (Register plugin now) = register m plugin now"
| "apply_operation m (Unregister pluginId) = unregister m pluginId"
| "apply_operation m (SetActive pluginId) = setActive m pluginId"
| "apply_operation m (Enable pluginId) = enable m pluginId"
| "apply_operation m (Disable pluginId) = disable m pluginId"
| "apply_operation m Initialize = initialize m"
| "apply_operation m Shutdown = shutdown m"

text \<open>The caller goes on after a call that threw, with the manager as that call left it.\<close>

fun run_operations :: "'q manager \<Rightarrow> 'q operation list \<Rightarrow> 'q manager" where
  "run_operations m [] = m"
| "run_operations m (op # ops) = run_operations (snd (apply_operation m op)) ops"

section \<open>Rate limiting\<close>

text \<open>
  Time is the integer of \<open>Date.now()\<close>, in milliseconds. \<open>setTimeout(resolve, d)\<close>
  takes a delay outside \<open>1 .. 2147483647\<close> as \<open>1\<close>; the awaiting code goes on no
  earlier than that delay after the call, and \<open>lag\<close> is by how much later.
\<close>

definition timer_delay :: "int \<Rightarrow> int" where
  "timer_delay d = (if 1 \<le> d \<and> d \<le> 2147483647 then d else 1)"

definition sleep :: "int \<Rightarrow> nat \<Rightarrow> int \<Rightarrow> int" where
  "sleep d lag now = now + timer_delay d + int lag"

text \<open>
  The object literal \<open>delays\<close> of \<open>_getMinDelay\<close>. Reading \<open>delays[pluginId]\<close>
  finds the four own properties and, for the property names of \<open>Object.prototype\<close>,
  the inherited member, which is a function or an object and not a number.
\<close>

datatype delay = Ms int | Inherited

definition object_prototype_names :: "string list" where
  "object_prototype_names =
     [''constructor'', ''hasOwnProperty'', ''isPrototypeOf'', ''propertyIsEnumerable'',
      ''toLocaleString'', ''toString'', ''valueOf'', ''__proto__'', ''__defineGetter__'',
      ''__defineSetter__'', ''__lookupGetter__'', ''__lookupSetter__'']"

definition delays :: "string \<Rightarrow> delay option" where
  "delays k =
     (case map_of [(''ads'', Ms 50), (''arxiv'', Ms 3000), (''inspire'', Ms 350),
                   (''default'', Ms 100)] k of
        Some d \<Rightarrow> Some d
      | None \<Rightarrow> if k \<in> set object_prototype_names then Some Inherited else None)"

text \<open>\<open>delays[pluginId] || delays.default\<close>\<close>

definition getMinDelay :: "string \<Rightarrow> delay" where
  "getMinDelay pluginId =
     (case delays pluginId of
        Some (Ms n) \<Rightarrow> if n \<noteq> 0 then Ms n else Ms 100
      | Some Inherited \<Rightarrow> Inherited
      | None \<Rightarrow> Ms 100)"

text \<open>\<open>elapsed < minDelay\<close>: a member that is not a number compares as \<open>NaN\<close>, false.\<close>

fun less_delay :: "int \<Rightarrow> delay \<Rightarrow> bool" where
  "less_delay elapsed (Ms n) = (elapsed < n)"
| "less_delay elapsed Inherited = False"

fun delay_ms :: "delay \<Rightarrow> int" where
  "delay_ms (Ms n) = n"
| "delay_ms Inherited = 0"

text \<open>
  How long the environment takes during one handler: the lags of its two timers and
  the duration of the plugin call that follows.
\<close>

record timing =
  lag_retry :: nat
  lag_delay :: nat
  call_time :: nat

text \<open>
  \<open>_enforceRateLimit(pluginId)\<close> entered at time \<open>now\<close>: the outcome, the manager
  and the time at which the caller goes on.
\<close>

definition enforceRateLimit :: "'q manager \<Rightarrow> string \<Rightarrow> int \<Rightarrow> timing \<Rightarrow> unit outcome \<times> 'q manager \<times> int" where
  "enforceRateLimit m pluginId now tm =
     (case get m pluginId of
        None \<Rightarrow> (Returns (), m, now)
      | Some plugin \<Rightarrow>
          (case p_getRateLimitStatus plugin of
             None \<Rightarrow> (Returns (), m, now)
           | Some (Throws err) \<Rightarrow> (Throws err, m, now)
           | Some (Returns None) \<Rightarrow> (Returns (), m, now)
           | Some (Returns (Some status)) \<Rightarrow>
               let t1 = (if remaining status \<le> 0 \<and> retryAfter status \<noteq> None
                            \<and> retryAfter status \<noteq> Some 0
                         then sleep (the (retryAfter status) * 1000) (lag_retry tm) now
                         else now);
                   minDelay = getMinDelay pluginId;
                   lastRequest = (case lastRequestTime m pluginId of None \<Rightarrow> 0 | Some t \<Rightarrow> t);
                   elapsed = t1 - lastRequest;
                   t2 = (if less_delay elapsed minDelay
                         then sleep (delay_ms minDelay - elapsed) (lag_delay tm) t1
                         else t1)
               in (Returns (), m\<lparr>lastRequestTime := (lastRequestTime m)(pluginId \<mapsto> t2)\<rparr>, t2)))"

section \<open>Unified operations\<close>

text \<open>\<open>result.papers = result.papers.map(p => ({ ...p, source: plugin.id }))\<close>\<close>

definition tag_source :: "string \<Rightarrow> search_result \<Rightarrow> search_result" where
  "tag_source pluginId result =
     result\<lparr>papers := map (\<lambda>p. p(''source'' \<mapsto> JString pluginId)) (papers result)\<rparr>"

definition not_a_function :: thrown where
  "not_a_function = ErrorObj ''TypeError: not a function''"

text \<open>\<open>search(query)\<close> with the active plugin.\<close>

definition search :: "'q manager \<Rightarrow> 'q \<Rightarrow> int \<Rightarrow> timing \<Rightarrow> search_result outcome \<times> 'q manager" where
  "search m query now tm =
     (case getActive m of
        None \<Rightarrow> (Throws (ErrorObj ''No active plugin''), m)
      | Some plugin \<Rightarrow>
          (case p_capabilities plugin of
             None \<Rightarrow> (Throws no_capabilities, m)
           | Some caps \<Rightarrow>
               if \<not> cap_search caps
               then (Throws (ErrorObj (''Plugin '' @ quoted (p_id plugin)
                                        @ '' does not support search'')), m)
               else (case enforceRateLimit m (p_id plugin) now tm of
                       (Throws err, m1, t) \<Rightarrow> (Throws err, m1)
                     | (Returns u, m1, t) \<Rightarrow>
                         (case p_search plugin of
                            None \<Rightarrow> (Throws not_a_function, m1)
                          | Some f \<Rightarrow>
                              (case f t query of
                                 Throws err \<Rightarrow> (Throws err, m1)
                               | Returns result \<Rightarrow>
                                   (Returns (tag_source (p_id plugin) result), m1))))))"





text \<open>\<open>plugin.getRecord(identifier)\<close>, called at time \<open>t\<close>.\<close>

definition call_getRecord :: "'q plugin \<Rightarrow> int \<Rightarrow> js_string \<Rightarrow> js_object option outcome" where
  "call_getRecord plugin t identifier =
     (case p_getRecord plugin of None \<Rightarrow> Throws not_a_function | Some f \<Rightarrow> f t identifier)"

text \<open>The \<open>switch (idType)\<close> of \<open>_lookupWithPlugin\<close>, with the fallback after it.\<close>

definition dispatch_lookup :: "'q plugin \<Rightarrow> int \<Rightarrow> js_string \<Rightarrow> id_type \<Rightarrow> js_object option outcome" where
  "dispatch_lookup plugin t identifier idType =
     (case idType of
        Doi \<Rightarrow>
          (case p_getByDOI plugin of
             Some f \<Rightarrow> f t identifier
           | None \<Rightarrow> call_getRecord plugin t identifier)
      | Arxiv \<Rightarrow>
          (case p_getByArxiv plugin of
             Some f \<Rightarrow> f t identifier
           | None \<Rightarrow> call_getRecord plugin t identifier)
      | Bibcode \<Rightarrow>
          (if p_id plugin = ''ads'' then call_getRecord plugin t identifier
           else call_getRecord plugin t identifier)
      | Inspire \<Rightarrow>
          (if p_id plugin = ''inspire'' then call_getRecord plugin t identifier
           else call_getRecord plugin t identifier)
      | Unknown \<Rightarrow> call_getRecord plugin t identifier)"

definition lookupWithPlugin :: "'q manager \<Rightarrow> 'q plugin \<Rightarrow> js_string \<Rightarrow> id_type \<Rightarrow> int \<Rightarrow> timing \<Rightarrow> js_object option outcome \<times> 'q manager \<times> int" where
  "lookupWithPlugin m plugin identifier idType now tm =
     (case enforceRateLimit m (p_id plugin) now tm of
        (Throws err, m1, t) \<Rightarrow> (Throws err, m1, t)
      | (Returns u, m1, t) \<Rightarrow>
          (dispatch_lookup plugin t identifier idType, m1, t + int (call_time tm)))"

text \<open>
  The \<open>catch (err)\<close> blocks of \<open>lookup\<close> log \<open>err.message\<close>: reading a property of
  \<open>undefined\<close> or \<open>null\<close> throws a \<open>TypeError\<close>, out of the \<open>catch\<close> block.
\<close>

definition read_message :: "thrown \<Rightarrow> unit outcome" where
  "read_message err =
     (case err of
        ThrownValue JUndefined \<Rightarrow> Throws (ErrorObj ''TypeError: Cannot read properties of undefined'')
      | ThrownValue JNull \<Rightarrow> Throws (ErrorObj ''TypeError: Cannot read properties of null'')
      | _ \<Rightarrow> Returns ())"

text \<open>
  One \<open>try { paper = await _lookupWithPlugin(...); if (paper) return paper } catch ...\<close>:
  \<open>Returns (Some paper)\<close> is the \<open>return paper\<close>, \<open>Returns None\<close> falls through to the
  next plugin, \<open>Throws\<close> leaves \<open>lookup\<close>.
\<close>

definition try_lookup :: "'q manager \<Rightarrow> 'q plugin \<Rightarrow> js_string \<Rightarrow> id_type \<Rightarrow> int \<Rightarrow> timing \<Rightarrow> js_object option outcome \<times> 'q manager \<times> int" where
  "try_lookup m plugin identifier idType now tm =
     (case lookupWithPlugin m plugin identifier idType now tm of
        (Returns (Some paper), m1, t) \<Rightarrow> (Returns (Some paper), m1, t)
      | (Returns None, m1, t) \<Rightarrow> (Returns None, m1, t)
      | (Throws err, m1, t) \<Rightarrow>
          (case read_message err of
             Throws e \<Rightarrow> (Throws e, m1, t)
           | Returns u \<Rightarrow> (Returns None, m1, t)))"

text \<open>The \<open>for (const plugin of lookupPlugins)\<close> loop; \<open>activeId\<close> is \<open>active?.id\<close>.\<close>

fun lookup_loop :: "string option \<Rightarrow> js_string \<Rightarrow> id_type \<Rightarrow> (string \<Rightarrow> timing) \<Rightarrow> 'q plugin list \<Rightarrow> 'q manager \<Rightarrow> int \<Rightarrow> js_object option outcome \<times> 'q manager" where
  "lookup_loop activeId identifier idType tm [] m now = (Returns None, m)"
| "lookup_loop activeId identifier idType tm (plugin # rest) m now =
     (if Some (p_id plugin) = activeId then lookup_loop activeId identifier idType tm rest m now
      else case try_lookup m plugin identifier idType now (tm (p_id plugin)) of
             (Returns (Some paper), m1, t) \<Rightarrow> (Returns (Some paper), m1)
           | (Returns None, m1, t) \<Rightarrow> lookup_loop activeId identifier idType tm rest m1 t
           | (Throws err, m1, t) \<Rightarrow> (Throws err, m1))"

definition lookup :: "'q manager \<Rightarrow> js_string \<Rightarrow> int \<Rightarrow> (string \<Rightarrow> timing) \<Rightarrow> js_object option outcome \<times> 'q manager" where
  "lookup m identifier now tm =
     (let idType = detectIdentifierType identifier in
      case list_plugins m True (Some CapLookup) of
        Throws err \<Rightarrow> (Throws err, m)
      | Returns lookupPlugins \<Rightarrow>
          (case getActive m of
             None \<Rightarrow> lookup_loop None identifier idType tm lookupPlugins m now
           | Some active \<Rightarrow>
               (case p_capabilities active of
                  None \<Rightarrow> (Throws no_capabilities, m)
                | Some caps \<Rightarrow>
                    if cap_lookup caps
                    then (case try_lookup m active identifier idType now (tm (p_id active)) of
                            (Returns (Some paper), m1, t) \<Rightarrow> (Returns (Some paper), m1)
                          | (Returns None, m1, t) \<Rightarrow>
                              lookup_loop (Some (p_id active)) identifier idType tm lookupPlugins m1 t
                          | (Throws err, m1, t) \<Rightarrow> (Throws err, m1))
                    else lookup_loop (Some (p_id active)) identifier idType tm lookupPlugins m now)))"

section \<open>Shapes named by the specification\<close>

text \<open>
  A string without white space at either end, which is what is left of an identifier
  after trimming.
\<close>

definition trimmed :: "js_string \<Rightarrow> bool" where
  "trimmed t = (t = [] \<or> (\<not> js_space (hd t) \<and> \<not> js_space (last t)))"

text \<open>
  Rule 1, DOI: \<open>10.\<close> followed by four or more digits, a slash, then any suffix.
\<close>

definition doi_shape :: "js_string \<Rightarrow> bool" where
  "doi_shape t =
     (\<exists>ds rest. t = units ''10.'' @ ds @ units ''/'' @ rest
        \<and> 4 \<le> length ds \<and> list_all u_digit ds)"

text \<open>
  Rule 2, arXiv: four digits, a dot, four or five digits and an optional version
  \<open>v\<close> with digits; or the legacy form, an archive name of lower-case letters and
  hyphens, a slash and seven digits.
\<close>

definition version_shape :: "js_string \<Rightarrow> bool" where
  "version_shape v = (\<exists>n. v = units ''v'' @ n \<and> n \<noteq> [] \<and> list_all u_digit n)"

definition arxiv_shape :: "js_string \<Rightarrow> bool" where
  "arxiv_shape t =
     ((\<exists>a b v. t = a @ units ''.'' @ b @ v
         \<and> length a = 4 \<and> list_all u_digit a
         \<and> (length b = 4 \<or> length b = 5) \<and> list_all u_digit b
         \<and> (v = [] \<or> version_shape v))
      \<or> (\<exists>name num. t = name @ units ''/'' @ num
         \<and> name \<noteq> [] \<and> list_all (\<lambda>n. u_lower n \<or> n = unit_of (CHR ''-'')) name
         \<and> length num = 7 \<and> list_all u_digit num))"

text \<open>
  Rule 3, bibcode. The character classes of its segments: the journal segment as the
  specification words it (alphanumeric, ampersand or dot) and as the pattern of the
  source has it (a letter, ampersand or dot), the volume segment and the last character.
\<close>

definition alnum :: "code_unit \<Rightarrow> bool" where
  "alnum n = (u_upper n \<or> u_lower n \<or> u_digit n)"

definition bib_journal_spec :: "code_unit \<Rightarrow> bool" where
  "bib_journal_spec n = (alnum n \<or> n = unit_of (CHR ''&'') \<or> n = unit_of (CHR ''.''))"

definition bib_journal_code :: "code_unit \<Rightarrow> bool" where
  "bib_journal_code n =
     (u_upper n \<or> u_lower n \<or> n = unit_of (CHR ''&'') \<or> n = unit_of (CHR ''.''))"

definition bib_volume :: "code_unit \<Rightarrow> bool" where
  "bib_volume n = (alnum n \<or> n = unit_of (CHR ''.''))"

definition bib_last :: "code_unit \<Rightarrow> bool" where
  "bib_last n = (u_upper n \<or> n = unit_of (CHR ''.''))"

text \<open>
  A four-digit year, five characters of the journal class \<open>journal\<close>, nine of the
  volume class and a last character: nineteen characters in all.
\<close>

definition bibcode_shape :: "(code_unit \<Rightarrow> bool) \<Rightarrow> js_string \<Rightarrow> bool" where
  "bibcode_shape journal t =
     (\<exists>y j v c. t = y @ j @ v @ [c]
        \<and> length y = 4 \<and> list_all u_digit y
        \<and> length j = 5 \<and> list_all journal j
        \<and> length v = 9 \<and> list_all bib_volume v
        \<and> bib_last c)"

text \<open>Rule 4, INSPIRE: a bare numeric string of fewer than ten digits.\<close>

definition inspire_shape :: "js_string \<Rightarrow> bool" where
  "inspire_shape t = (t \<noteq> [] \<and> list_all u_digit t \<and> length t < 10)"

section \<open>The entries of a PDF-source list\<close>

text \<open>
  The esources that carry an arXiv link: a truthy URL that starts with \<open>http\<close> and a
  link type that contains \<open>EPRINT_PDF\<close>.
\<close>

definition arxiv_link :: "esource \<Rightarrow> bool" where
  "arxiv_link source =
     (str_truthy (e_url source) \<and> startsWith (the (e_url source)) ''http''
      \<and> includes_str (linkType_of source) ''EPRINT_PDF'')"

text \<open>
  What one pass of the loop body appends for an esource when the counter stands at
  \<open>n\<close>, and the entries of a whole list of esources.
\<close>

definition entry_of :: "esource \<Rightarrow> nat \<Rightarrow> pdf_source option" where
  "entry_of source n =
     (if \<not> str_truthy (e_url source) \<or> \<not> startsWith (the (e_url source)) ''http'' then None
      else if includes_str (linkType_of source) ''EPRINT_PDF''
      then Some \<lparr>ps_type = ARXIV, ps_url = the (e_url source), ps_label = ''arXiv PDF'',
                 ps_requiresAuth = False, ps_priority = n\<rparr>
      else if includes_str (linkType_of source) ''PUB_PDF''
      then Some \<lparr>ps_type = PUBLISHER, ps_url = the (e_url source), ps_label = ''Publisher PDF'',
                 ps_requiresAuth = True, ps_priority = n\<rparr>
      else if includes_str (linkType_of source) ''ADS_PDF''
      then Some \<lparr>ps_type = ADS_SCAN, ps_url = the (e_url source), ps_label = ''ADS Scan'',
                 ps_requiresAuth = False, ps_priority = n\<rparr>
      else None)"

fun entries :: "esource list \<Rightarrow> nat \<Rightarrow> pdf_source list" where
  "entries [] n = []"
| "entries (source # rest) n =
     (case entry_of source n of
        None \<Rightarrow> entries rest n
      | Some x \<Rightarrow> x # entries rest (Suc n))"

section \<open>Invariants of the registry\<close>

text \<open>
  What \<open>register\<close> establishes for every entry of the registry: keys are not repeated,
  an entry is stored under its plugin's id, and the plugin has passed validation.
\<close>

definition entry_ok :: "string \<times> 'q registration \<Rightarrow> bool" where
  "entry_ok kv =
     (reg_id (snd kv) = fst kv \<and> p_id (reg_plugin (snd kv)) = fst kv
      \<and> validatePlugin_valid (reg_plugin (snd kv)))"

definition registry_ok :: "'q manager \<Rightarrow> bool" where
  "registry_ok m = (distinct (map fst (plugins m)) \<and> list_all entry_ok (plugins m))"

text \<open>The active-plugin pointer is \<open>null\<close> or the id of a registered plugin.\<close>

definition active_ok :: "'q manager \<Rightarrow> bool" where
  "active_ok m = (case activePluginId m of None \<Rightarrow> True | Some a \<Rightarrow> map_has (plugins m) a)"

section \<open>Validation as the specification words it\<close>

text \<open>
  A well-formed id: a lower-case letter followed by lower-case letters, digits,
  \<open>-\<close> or \<open>_\<close>. A missing required field. A declared capability without its
  method, for the three capabilities that \<open>validatePlugin\<close> looks at.
\<close>

definition id_well_formed :: "string \<Rightarrow> bool" where
  "id_well_formed s =
     (case s of
        [] \<Rightarrow> False
      | c # cs \<Rightarrow> lower c \<and> list_all (\<lambda>c. lower c \<or> digit c \<or> c = CHR ''_'' \<or> c = CHR ''-'') cs)"

definition missing_required :: "'q plugin \<Rightarrow> bool" where
  "missing_required p =
     (p_id p = [] \<or> p_name p = [] \<or> p_capabilities p = None \<or> p_auth p = None)"

definition missing_method :: "'q plugin \<Rightarrow> bool" where
  "missing_method p =
     ((declares p CapSearch \<and> p_search p = None)
      \<or> (declares p CapLookup \<and> p_getRecord p = None)
      \<or> (declares p CapPdfDownload \<and> (\<not> has_getPdfSources p \<or> \<not> has_downloadPdf p)))"

section \<open>Example plugins\<close>

text \<open>
  A plugin with the given id that declares no capability and has no optional method, and
  a rate-limit status with requests left; the concrete plugins of the examples are
  updates of it.
\<close>

definition caps_none :: capabilities where
  "caps_none =
     \<lparr>cap_search = False, cap_lookup = False, cap_references = False, cap_citations = False,
      cap_pdfDownload = False, cap_bibtex = False, cap_metadata = False\<rparr>"

definition status_free :: rate_limit_status where
  "status_free = \<lparr>remaining = 5000, limit = 5000, resetAt = 86400000, retryAfter = None\<rparr>"

definition stub_plugin :: "string \<Rightarrow> unit plugin" where
  "stub_plugin i =
     \<lparr>p_id = i, p_name = ''Stub'', p_capabilities = Some caps_none,
      p_auth = Some \<lparr>auth_type = ''none''\<rparr>,
      p_getRateLimitStatus = Some (Returns (Some status_free)),
      p_search = None, p_getRecord = None, p_getByDOI = None, p_getByArxiv = None,
      has_getPdfSources = False, has_downloadPdf = False, has_getReferences = False,
      has_getCitations = False, has_getBibtex = False,
      p_initialize = None, p_shutdown = None\<rparr>"

text \<open>
  A plugin that declares the references, citations, bibtex and metadata capabilities and
  has none of the methods.
\<close>

definition refs_plugin :: "unit plugin" where
  "refs_plugin =
     (stub_plugin ''refs'')
       \<lparr>p_capabilities := Some (caps_none\<lparr>cap_references := True, cap_citations := True,
                                          cap_bibtex := True, cap_metadata := True\<rparr>)\<rparr>"

text \<open>A manager after three plugins have been registered, and one after a single plugin.\<close>

definition three_plugins :: "unit manager" where
  "three_plugins =
     run_operations new_manager
       [Register (stub_plugin ''ads'') 0, Register (stub_plugin ''arxiv'') 1,
        Register (stub_plugin ''inspire'') 2]"

definition one_plugin :: "unit manager" where
  "one_plugin = run_operations new_manager [Register (stub_plugin ''ads'') 0]"

section \<open>Examples for the rate limiter\<close>

definition no_lag :: timing where
  "no_lag = \<lparr>lag_retry = 0, lag_delay = 0, call_time = 0\<rparr>"



section \<open>Federated search as the specification words it\<close>


definition dispatch_time :: "'q manager \<Rightarrow> string \<Rightarrow> int \<Rightarrow> timing \<Rightarrow> int" where
  "dispatch_time m k now tm = snd (snd (enforceRateLimit m k now tm))"


section \<open>Examples for federated search and lookup\<close>





text \<open>
  Two registered plugins with the lookup capability and a \<open>getByDOI\<close> method each; the
  first registered, \<open>ads\<close>, is the active one.
\<close>

definition looking_plugin :: "string \<Rightarrow> (int \<Rightarrow> js_string \<Rightarrow> js_object option outcome) \<Rightarrow> unit plugin" where
  "looking_plugin i f =
     (stub_plugin i)\<lparr>p_capabilities := Some (caps_none\<lparr>cap_lookup := True\<rparr>),
                      p_getRecord := Some (\<lambda>t s. Returns None), p_getByDOI := Some f\<rparr>"

definition found_paper :: js_object where
  "found_paper = [''title'' \<mapsto> JString ''A paper'', ''doi'' \<mapsto> JString ''10.1234/x'']"

definition lookup_example :: "(int \<Rightarrow> js_string \<Rightarrow> js_object option outcome) \<Rightarrow> unit manager" where
  "lookup_example active_getByDOI =
     run_operations new_manager
       [Register (looking_plugin ''ads'' active_getByDOI) 0,
        Register (looking_plugin ''arxiv'' (\<lambda>t s. Returns (Some found_paper))) 1]"

section \<open>Lookup as the specification words it\<close>

text \<open>
  What one attempt with a plugin comes to when the plugin is called at time \<open>t\<close>: what
  the rate limiter throws, or else the outcome of the method chosen for the identifier's
  type. The plugins in the order in which \<open>lookup\<close> tries them: the active plugin if it
  declares the lookup capability, then every other enabled plugin that declares it, in
  registration order. The first paper found in that order, given what the attempt with
  each plugin comes to (\<open>answer\<close>), an attempt that throws being a miss unless reading
  \<open>message\<close> of the thrown value throws.
\<close>

definition lookup_attempt :: "'q plugin \<Rightarrow> js_string \<Rightarrow> int \<Rightarrow> js_object option outcome" where
  "lookup_attempt plugin identifier t =
     (case p_getRateLimitStatus plugin of
        Some (Throws err) \<Rightarrow> Throws err
      | _ \<Rightarrow> dispatch_lookup plugin t identifier (detectIdentifierType identifier))"

definition lookup_candidates :: "'q manager \<Rightarrow> 'q plugin list" where
  "lookup_candidates m =
     (case getActive m of
        None \<Rightarrow> []
      | Some active \<Rightarrow> if declares active CapLookup then [active] else [])
     @ filter (\<lambda>p. Some (p_id p) \<noteq> map_option p_id (getActive m))
         (map reg_plugin
            (filter (\<lambda>reg. enabled reg \<and> declares (reg_plugin reg) CapLookup)
               (map_values (plugins m))))"

fun first_found :: "('q plugin \<Rightarrow> js_object option outcome) \<Rightarrow> 'q plugin list \<Rightarrow> js_object option outcome" where
  "first_found answer [] = Returns None"
| "first_found answer (plugin # rest) =
     (case answer plugin of
        Returns (Some paper) \<Rightarrow> Returns (Some paper)
      | Returns None \<Rightarrow> first_found answer rest
      | Throws err \<Rightarrow>
          (case read_message err of
             Throws e \<Rightarrow> Throws e
           | Returns u \<Rightarrow> first_found answer rest))"

section \<open>An example of paced calls\<close>





section \<open>Identifier classifier: theorems\<close>

subsection \<open>What a pattern matches\<close>

lemma times_numeral: "times (numeral k) r = Seq r (times (pred_numeral k) r)"
  by (simp add: numeral_eq_Suc)

lemmas classifier_defs =
  detectIdentifierType_def trim_def js_space_def units_def unit_of_def code_def
  test_prefix_def test_full_def
  doi_rx_def arxiv_new_rx_def arxiv_old_rx_def bibcode_rx_def digits_rx_def many1_def
  u_digit_def u_upper_def u_lower_def times_numeral

lemma mem_Cls: "(r \<in> set (run (Cls p) s)) = (\<exists>c. s = c # r \<and> p c)"
  by (cases s) auto

lemma mem_Seq: "(r \<in> set (run (Seq a b) s)) = (\<exists>m. m \<in> set (run a s) \<and> r \<in> set (run b m))"
  by auto

lemma mem_Opt: "(r \<in> set (run (Opt a) s)) = (r \<in> set (run a s) \<or> r = s)"
  by auto

lemma mem_Many: "(r \<in> set (run (Many p) s)) = (\<exists>ds. s = ds @ r \<and> list_all p ds)"
proof (induction s)
  case Nil
  show ?case by auto
next
  case (Cons c cs)
  show ?case
  proof
    assume "r \<in> set (run (Many p) (c # cs))"
    then consider "p c" "r \<in> set (run (Many p) cs)" | "r = c # cs"
      by (auto split: if_splits)
    then show "\<exists>ds. c # cs = ds @ r \<and> list_all p ds"
    proof cases
      case 1
      with Cons obtain ds where "cs = ds @ r" "list_all p ds" by auto
      with 1 have "c # cs = (c # ds) @ r \<and> list_all p (c # ds)" by simp
      then show ?thesis by blast
    next
      case 2
      then have "c # cs = [] @ r \<and> list_all p []" by simp
      then show ?thesis by blast
    qed
  next
    assume "\<exists>ds. c # cs = ds @ r \<and> list_all p ds"
    then obtain ds where ds: "c # cs = ds @ r" "list_all p ds" by blast
    show "r \<in> set (run (Many p) (c # cs))"
    proof (cases ds)
      case Nil
      with ds have "r = c # cs" by simp
      then show ?thesis by simp
    next
      case (Cons d ds')
      with ds have "d = c" "cs = ds' @ r" "p c" "list_all p ds'" by auto
      with Cons.IH show ?thesis by auto
    qed
  qed
qed

lemma mem_times:
  "(r \<in> set (run (times n (Cls p)) s)) = (\<exists>ds. s = ds @ r \<and> length ds = n \<and> list_all p ds)"
proof (induction n arbitrary: s)
  case 0
  show ?case by auto
next
  case (Suc n)
  show ?case
  proof
    assume "r \<in> set (run (times (Suc n) (Cls p)) s)"
    then obtain c cs where s: "s = c # cs" "p c" "r \<in> set (run (times n (Cls p)) cs)"
      by (cases s) (auto split: if_splits)
    with Suc obtain ds where "cs = ds @ r" "length ds = n" "list_all p ds" by auto
    with s have "s = (c # ds) @ r \<and> length (c # ds) = Suc n \<and> list_all p (c # ds)" by simp
    then show "\<exists>ds. s = ds @ r \<and> length ds = Suc n \<and> list_all p ds" by blast
  next
    assume "\<exists>ds. s = ds @ r \<and> length ds = Suc n \<and> list_all p ds"
    then obtain ds where ds: "s = ds @ r" "length ds = Suc n" "list_all p ds" by blast
    then obtain c ds' where c: "ds = c # ds'" by (cases ds) auto
    with ds have "r \<in> set (run (times n (Cls p)) (ds' @ r))"
      using Suc [of "ds' @ r"] by auto
    with ds c show "r \<in> set (run (times (Suc n) (Cls p)) s)" by simp
  qed
qed

lemma mem_lit: "(r \<in> set (run (lit w) s)) = (s = w @ r)"
proof (induction w arbitrary: s)
  case Nil
  show ?case by auto
next
  case (Cons c w)
  show ?case by (cases s) (auto simp: Cons)
qed

lemma mem_many1:
  "(r \<in> set (run (many1 p) s)) = (\<exists>ds. s = ds @ r \<and> ds \<noteq> [] \<and> list_all p ds)"
proof
  assume "r \<in> set (run (many1 p) s)"
  then obtain c cs where s: "s = c # cs" "p c" "r \<in> set (run (Many p) cs)"
    by (cases s) (auto simp: many1_def split: if_splits)
  then obtain ds where "cs = ds @ r" "list_all p ds" by (auto simp: mem_Many)
  with s have "s = (c # ds) @ r \<and> c # ds \<noteq> [] \<and> list_all p (c # ds)" by simp
  then show "\<exists>ds. s = ds @ r \<and> ds \<noteq> [] \<and> list_all p ds" by blast
next
  assume "\<exists>ds. s = ds @ r \<and> ds \<noteq> [] \<and> list_all p ds"
  then obtain ds where ds: "s = ds @ r" "ds \<noteq> []" "list_all p ds" by blast
  then obtain c ds' where c: "ds = c # ds'" by (cases ds) auto
  with ds have "r \<in> set (run (Many p) (ds' @ r))" by (auto simp: mem_Many)
  with ds c show "r \<in> set (run (many1 p) s)" by (simp add: many1_def)
qed

lemmas mem_run = mem_Seq mem_Cls mem_Opt mem_Many mem_times mem_lit mem_many1

lemma test_prefix_mem: "test_prefix r s = (\<exists>m. m \<in> set (run r s))"
  by (cases "run r s") (auto simp: test_prefix_def)

subsection \<open>Patterns and shapes\<close>

lemma doi_rx_shape: "test_prefix doi_rx t = doi_shape t"
proof
  assume "test_prefix doi_rx t"
  then obtain a b rest where t: "t = units ''10.'' @ a @ b @ units ''/'' @ rest"
    and a: "length a = 4" "list_all u_digit a" and b: "list_all u_digit b"
    by (auto simp: test_prefix_mem doi_rx_def mem_run)
  then have "t = units ''10.'' @ (a @ b) @ units ''/'' @ rest \<and> 4 \<le> length (a @ b)
      \<and> list_all u_digit (a @ b)"
    by simp
  then show "doi_shape t" unfolding doi_shape_def by blast
next
  assume "doi_shape t"
  then obtain ds rest where t: "t = units ''10.'' @ ds @ units ''/'' @ rest"
    and ds: "4 \<le> length ds" "list_all u_digit ds"
    by (auto simp: doi_shape_def)
  define a where "a = take 4 ds"
  define b where "b = drop 4 ds"
  have split: "ds = a @ b" by (simp add: a_def b_def)
  from ds have ab: "length a = 4" "list_all u_digit a" "list_all u_digit b"
    by (auto simp: a_def b_def list_all_iff dest: in_set_takeD in_set_dropD)
  from t split have "t = units ''10.'' @ a @ b @ units ''/'' @ rest" by simp
  with ab have "rest \<in> set (run doi_rx t)"
    unfolding doi_rx_def mem_run by auto
  then show "test_prefix doi_rx t"
    unfolding test_prefix_mem by blast
qed

lemma digits_rx_shape: "(test_full digits_rx t \<and> length t < 10) = inspire_shape t"
  by (auto simp: test_full_def digits_rx_def mem_run inspire_shape_def)

lemma bibcode_rx_shape: "test_full bibcode_rx t = bibcode_shape bib_journal_code t"
proof -
  have j: "(\<lambda>n. u_upper n \<or> u_lower n \<or> n = unit_of (CHR ''&'') \<or> n = unit_of (CHR ''.''))
      = bib_journal_code"
    by (auto simp: bib_journal_code_def)
  have v: "(\<lambda>n. u_upper n \<or> u_lower n \<or> u_digit n \<or> n = unit_of (CHR ''.'')) = bib_volume"
    by (auto simp: bib_volume_def alnum_def)
  have c: "(\<lambda>n. u_upper n \<or> n = unit_of (CHR ''.'')) = bib_last"
    by (auto simp: bib_last_def)
  show ?thesis
    unfolding test_full_def bibcode_rx_def j v c bibcode_shape_def mem_run
    by auto
qed

lemma arxiv_old_rx_shape:
  "test_full arxiv_old_rx t =
     (\<exists>name num. t = name @ units ''/'' @ num
         \<and> name \<noteq> [] \<and> list_all (\<lambda>n. u_lower n \<or> n = unit_of (CHR ''-'')) name
         \<and> length num = 7 \<and> list_all u_digit num)"
  unfolding test_full_def arxiv_old_rx_def mem_run by auto

lemma arxiv_head:
  "(x \<in> set (run (Seq (times 4 (Cls u_digit)) (Seq (lit d) (Seq (times 4 (Cls u_digit)) r))) t))
   = (\<exists>a b m. t = a @ d @ b @ m \<and> length a = 4 \<and> list_all u_digit a
        \<and> length b = 4 \<and> list_all u_digit b \<and> x \<in> set (run r m))"
  unfolding mem_Seq mem_times mem_lit by auto

lemma arxiv_tail:
  "([] \<in> set (run (Seq (Opt (Cls u_digit)) (Opt (Seq (lit (units ''v'')) (many1 u_digit)))) m))
   = (\<exists>e v. m = e @ v \<and> (e = [] \<or> (\<exists>c. e = [c] \<and> u_digit c)) \<and> (v = [] \<or> version_shape v))"
  (is "?l = ?r")
proof
  assume ?l
  then obtain v where e: "(\<exists>c. m = c # v \<and> u_digit c) \<or> v = m"
    and v: "(\<exists>ds. v = units ''v'' @ ds \<and> ds \<noteq> [] \<and> list_all u_digit ds) \<or> [] = v"
    unfolding mem_run by blast
  from v have v': "v = [] \<or> version_shape v" by (auto simp: version_shape_def)
  from e show ?r
  proof
    assume "\<exists>c. m = c # v \<and> u_digit c"
    then obtain c where "m = [c] @ v" "u_digit c" by auto
    with v' show ?r by blast
  next
    assume "v = m"
    then have "m = [] @ v" by simp
    with v' show ?r by blast
  qed
next
  assume ?r
  then obtain e v where m: "m = e @ v" and e: "e = [] \<or> (\<exists>c. e = [c] \<and> u_digit c)"
    and v: "v = [] \<or> version_shape v"
    by blast
  from v have tail: "[] \<in> set (run (Opt (Seq (lit (units ''v'')) (many1 u_digit))) v)"
    unfolding mem_run by (auto simp: version_shape_def)
  from e m have "v \<in> set (run (Opt (Cls u_digit)) m)"
    unfolding mem_run by auto
  with tail show ?l unfolding mem_Seq [of _ "Opt (Cls u_digit)"] by blast
qed

lemma arxiv_new_rx_shape:
  "test_full arxiv_new_rx t =
     (\<exists>a b v. t = a @ units ''.'' @ b @ v
         \<and> length a = 4 \<and> list_all u_digit a
         \<and> (length b = 4 \<or> length b = 5) \<and> list_all u_digit b
         \<and> (v = [] \<or> version_shape v))"
  (is "?l = ?r")
proof
  assume ?l
  then obtain a b e v where t: "t = a @ units ''.'' @ b @ e @ v"
    and a: "length a = 4" "list_all u_digit a" and b: "length b = 4" "list_all u_digit b"
    and e: "e = [] \<or> (\<exists>c. e = [c] \<and> u_digit c)" and v: "v = [] \<or> version_shape v"
    unfolding test_full_def arxiv_new_rx_def arxiv_head arxiv_tail by blast
  from e b have "(length (b @ e) = 4 \<or> length (b @ e) = 5) \<and> list_all u_digit (b @ e)"
    by auto
  with t a v have "t = a @ units ''.'' @ (b @ e) @ v
      \<and> length a = 4 \<and> list_all u_digit a
      \<and> (length (b @ e) = 4 \<or> length (b @ e) = 5) \<and> list_all u_digit (b @ e)
      \<and> (v = [] \<or> version_shape v)"
    by simp
  then show ?r by blast
next
  assume ?r
  then obtain a b v where t: "t = a @ units ''.'' @ b @ v"
    and a: "length a = 4" "list_all u_digit a"
    and b: "length b = 4 \<or> length b = 5" "list_all u_digit b"
    and v: "v = [] \<or> version_shape v"
    by blast
  define b4 where "b4 = take 4 b"
  define e where "e = drop 4 b"
  have split: "b = b4 @ e" by (simp add: b4_def e_def)
  from b have b4: "length b4 = 4" "list_all u_digit b4"
    by (auto simp: b4_def list_all_iff dest: in_set_takeD)
  from b(1) have "length e = 0 \<or> length e = 1" by (auto simp: e_def)
  then have "e = [] \<or> (\<exists>c. e = [c])"
    by (cases e) auto
  moreover from b(2) have "list_all u_digit e"
    by (auto simp: e_def list_all_iff dest: in_set_dropD)
  ultimately have e: "e = [] \<or> (\<exists>c. e = [c] \<and> u_digit c)" by auto
  from t split have "t = a @ units ''.'' @ b4 @ e @ v" by simp
  with a b4 e v show ?l
    unfolding test_full_def arxiv_new_rx_def arxiv_head arxiv_tail by blast
qed

lemma arxiv_rx_shape:
  "(test_full arxiv_new_rx t \<or> test_full arxiv_old_rx t) = arxiv_shape t"
  unfolding arxiv_new_rx_shape arxiv_old_rx_shape arxiv_shape_def ..

subsection \<open>Trimming\<close>

lemma dropWhile_all:
  "\<forall>x\<in>set xs. P x \<Longrightarrow> dropWhile P (xs @ t) = dropWhile P t"
  by (induction xs) auto

lemma trim_trimmed:
  assumes "trimmed t"
  shows "trim t = t"
proof (cases "t = []")
  case True
  then show ?thesis by (simp add: trim_def)
next
  case False
  with assms have ends: "\<not> js_space (hd t)" "\<not> js_space (last t)"
    by (simp_all add: trimmed_def)
  from False ends have front: "dropWhile js_space t = t"
    by (cases t) auto
  from False ends have "rev t \<noteq> []" "\<not> js_space (hd (rev t))"
    by (simp_all add: hd_rev)
  then have "dropWhile js_space (rev t) = rev t"
    by (cases "rev t") auto
  with front show ?thesis by (simp add: trim_def)
qed

lemma trim_pad:
  assumes "list_all js_space l" "list_all js_space r"
  shows "trim (l @ s @ r) = trim s"
proof -
  have drop_l: "dropWhile js_space (l @ t) = dropWhile js_space t" for t
    using assms(1) by (simp add: dropWhile_all list_all_iff)
  have drop_r: "dropWhile js_space (rev r @ t) = dropWhile js_space t" for t
    using assms(2) by (simp add: dropWhile_all list_all_iff)
  show ?thesis
  proof (cases "dropWhile js_space s = []")
    case True
    then have "\<forall>x\<in>set s. js_space x"
      by (simp add: dropWhile_eq_Nil_conv)
    then have blank: "dropWhile js_space (s @ r) = []"
      using assms(2) by (auto simp add: list_all_iff dropWhile_eq_Nil_conv)
    show ?thesis unfolding trim_def drop_l blank True by simp
  next
    case False
    then have "dropWhile js_space (s @ r) = dropWhile js_space s @ r"
      by (metis dropWhile_append1 dropWhile_eq_Nil_conv)
    then show ?thesis by (simp add: trim_def drop_l drop_r)
  qed
qed

lemma trim_padded:
  assumes "list_all js_space l" "list_all js_space r" "trimmed t"
  shows "trim (l @ t @ r) = t"
  using assms by (simp add: trim_pad trim_trimmed)

lemma padded_decomposition:
  "\<exists>l t r. s = l @ t @ r \<and> list_all js_space l \<and> list_all js_space r \<and> trimmed t"
proof -
  define l where "l = takeWhile js_space s"
  define m where "m = dropWhile js_space s"
  define r where "r = rev (takeWhile js_space (rev m))"
  define t where "t = rev (dropWhile js_space (rev m))"
  have s: "s = l @ m" by (simp add: l_def m_def)
  have "t @ r = rev (takeWhile js_space (rev m) @ dropWhile js_space (rev m))"
    unfolding t_def r_def by (simp only: rev_append)
  then have m: "m = t @ r" by simp
  have l: "list_all js_space l"
    by (auto simp: l_def list_all_iff dest: set_takeWhileD)
  have r: "list_all js_space r"
    by (auto simp: r_def list_all_iff dest: set_takeWhileD)
  have "trimmed t"
  proof (cases "t = []")
    case True
    then show ?thesis by (simp add: trimmed_def)
  next
    case False
    then have nonempty: "dropWhile js_space (rev m) \<noteq> []" by (simp add: t_def)
    then have "\<not> js_space (hd (dropWhile js_space (rev m)))"
      by (rule hd_dropWhile)
    with nonempty have last: "\<not> js_space (last t)" by (simp add: t_def last_rev)
    from False m have "m \<noteq> []" by simp
    then have "\<not> js_space (hd m)" unfolding m_def by (rule hd_dropWhile)
    with False m have "\<not> js_space (hd t)" by simp
    with last False show ?thesis by (simp add: trimmed_def)
  qed
  with s m l r have "s = l @ t @ r \<and> list_all js_space l \<and> list_all js_space r \<and> trimmed t"
    by simp
  then show ?thesis by blast
qed

subsection \<open>The classifier decides the documented shapes\<close>

lemma detectIdentifierType_shapes:
  "detectIdentifierType s =
     (if doi_shape (trim s) then Doi
      else if arxiv_shape (trim s) then Arxiv
      else if bibcode_shape bib_journal_code (trim s) then Bibcode
      else if inspire_shape (trim s) then Inspire
      else Unknown)"
  unfolding detectIdentifierType_def Let_def doi_rx_shape arxiv_rx_shape bibcode_rx_shape
    digits_rx_shape ..

text \<open>
  C3, as stated, fails on the documented bibcode rule: \<open>2011sf2a.conf..345B\<close> has no
  white space at its ends, is a four-digit year, five characters that are alphanumeric or
  a dot, nine that are alphanumeric or a dot and an upper-case letter, it has neither the
  DOI nor the arXiv shape, and the classifier does not answer bibcode but unknown.
\<close>

theorem detectIdentifierType_documented_bibcode_counterexample:
  "trimmed (units ''2011sf2a.conf..345B'')
   \<and> \<not> doi_shape (units ''2011sf2a.conf..345B'')
   \<and> \<not> arxiv_shape (units ''2011sf2a.conf..345B'')
   \<and> bibcode_shape bib_journal_spec (units ''2011sf2a.conf..345B'')
   \<and> detectIdentifierType (units ''2011sf2a.conf..345B'') = Unknown
   \<and> detectIdentifierType (units ''2011sf2a.conf..345B'') \<noteq> Bibcode"
proof -
  let ?s = "units ''2011sf2a.conf..345B''"
  have t: "trimmed ?s"
    by (simp add: trimmed_def js_space_def units_def code_def)
  have d: "\<not> doi_shape ?s"
    unfolding doi_rx_shape [symmetric] by (simp add: classifier_defs)
  have a: "\<not> arxiv_shape ?s"
    unfolding arxiv_rx_shape [symmetric] by (simp add: classifier_defs)
  have "?s = units ''2011'' @ units ''sf2a.'' @ units ''conf..345'' @ [unit_of (CHR ''B'')]
      \<and> length (units ''2011'') = 4 \<and> list_all u_digit (units ''2011'')
      \<and> length (units ''sf2a.'') = 5 \<and> list_all bib_journal_spec (units ''sf2a.'')
      \<and> length (units ''conf..345'') = 9 \<and> list_all bib_volume (units ''conf..345'')
      \<and> bib_last (unit_of (CHR ''B''))"
    by (simp add: units_def unit_of_def code_def u_digit_def u_upper_def u_lower_def
        bib_journal_spec_def bib_volume_def bib_last_def alnum_def)
  then have b: "bibcode_shape bib_journal_spec ?s"
    unfolding bibcode_shape_def by blast
  have u: "detectIdentifierType ?s = Unknown"
    by (simp add: classifier_defs)
  from t d a b u show ?thesis by simp
qed

text \<open>
  C3, amended. Every string is an identifier without white space at its ends, between
  two runs of white space, and the classifier answers from that identifier alone, one tag:
  doi exactly when it has the DOI shape; arxiv exactly when it has not the DOI shape and
  has the arXiv shape; bibcode exactly when it has neither of these and is a four-digit
  year, five letters, ampersands or dots (no digit), nine alphanumeric characters or dots
  and one upper-case letter or dot; inspire exactly when it has none of these and is made
  of one to nine digits; unknown exactly when it has none of the four shapes. The five
  identifiers of the specification get the tags doi, arxiv, bibcode, inspire and unknown.
\<close>

theorem detectIdentifierType_rules:
  "(\<exists>l t r. s = l @ t @ r \<and> list_all js_space l \<and> list_all js_space r \<and> trimmed t)
   \<and> (list_all js_space l \<and> list_all js_space r \<and> trimmed t \<longrightarrow>
        (detectIdentifierType (l @ t @ r) = Doi) = doi_shape t
        \<and> (detectIdentifierType (l @ t @ r) = Arxiv) = (\<not> doi_shape t \<and> arxiv_shape t)
        \<and> (detectIdentifierType (l @ t @ r) = Bibcode)
            = (\<not> doi_shape t \<and> \<not> arxiv_shape t \<and> bibcode_shape bib_journal_code t)
        \<and> (detectIdentifierType (l @ t @ r) = Inspire)
            = (\<not> doi_shape t \<and> \<not> arxiv_shape t \<and> \<not> bibcode_shape bib_journal_code t
               \<and> inspire_shape t)
        \<and> (detectIdentifierType (l @ t @ r) = Unknown)
            = (\<not> doi_shape t \<and> \<not> arxiv_shape t \<and> \<not> bibcode_shape bib_journal_code t
               \<and> \<not> inspire_shape t))
   \<and> detectIdentifierType (units ''10.1086/305772'') = Doi
   \<and> detectIdentifierType (units ''2401.12345'') = Arxiv
   \<and> detectIdentifierType (units ''2024ApJ...123..456A'') = Bibcode
   \<and> detectIdentifierType (units ''1234567'') = Inspire
   \<and> detectIdentifierType (units ''not-an-id'') = Unknown"
proof -
  have total: "\<exists>l t r. s = l @ t @ r \<and> list_all js_space l \<and> list_all js_space r \<and> trimmed t"
    by (rule padded_decomposition)
  have rules: "list_all js_space l \<and> list_all js_space r \<and> trimmed t \<longrightarrow>
        (detectIdentifierType (l @ t @ r) = Doi) = doi_shape t
        \<and> (detectIdentifierType (l @ t @ r) = Arxiv) = (\<not> doi_shape t \<and> arxiv_shape t)
        \<and> (detectIdentifierType (l @ t @ r) = Bibcode)
            = (\<not> doi_shape t \<and> \<not> arxiv_shape t \<and> bibcode_shape bib_journal_code t)
        \<and> (detectIdentifierType (l @ t @ r) = Inspire)
            = (\<not> doi_shape t \<and> \<not> arxiv_shape t \<and> \<not> bibcode_shape bib_journal_code t
               \<and> inspire_shape t)
        \<and> (detectIdentifierType (l @ t @ r) = Unknown)
            = (\<not> doi_shape t \<and> \<not> arxiv_shape t \<and> \<not> bibcode_shape bib_journal_code t
               \<and> \<not> inspire_shape t)"
  proof
    assume "list_all js_space l \<and> list_all js_space r \<and> trimmed t"
    then have "trim (l @ t @ r) = t" by (simp add: trim_padded)
    then show "(detectIdentifierType (l @ t @ r) = Doi) = doi_shape t
        \<and> (detectIdentifierType (l @ t @ r) = Arxiv) = (\<not> doi_shape t \<and> arxiv_shape t)
        \<and> (detectIdentifierType (l @ t @ r) = Bibcode)
            = (\<not> doi_shape t \<and> \<not> arxiv_shape t \<and> bibcode_shape bib_journal_code t)
        \<and> (detectIdentifierType (l @ t @ r) = Inspire)
            = (\<not> doi_shape t \<and> \<not> arxiv_shape t \<and> \<not> bibcode_shape bib_journal_code t
               \<and> inspire_shape t)
        \<and> (detectIdentifierType (l @ t @ r) = Unknown)
            = (\<not> doi_shape t \<and> \<not> arxiv_shape t \<and> \<not> bibcode_shape bib_journal_code t
               \<and> \<not> inspire_shape t)"
      by (simp add: detectIdentifierType_shapes)
  qed
  have e1: "detectIdentifierType (units ''10.1086/305772'') = Doi"
    by (simp add: classifier_defs)
  have e2: "detectIdentifierType (units ''2401.12345'') = Arxiv"
    by (simp add: classifier_defs)
  have e3: "detectIdentifierType (units ''2024ApJ...123..456A'') = Bibcode"
    by (simp add: classifier_defs)
  have e4: "detectIdentifierType (units ''1234567'') = Inspire"
    by (simp add: classifier_defs)
  have e5: "detectIdentifierType (units ''not-an-id'') = Unknown"
    by (simp add: classifier_defs)
  from total rules e1 e2 e3 e4 e5 show ?thesis by (intro conjI)
qed

theorem detectIdentifierType_rules_witness:
  "list_all js_space [65279, 32] \<and> list_all js_space [9, 10, 12288]
   \<and> trimmed (units ''2401.12345v2'')
   \<and> detectIdentifierType ([65279, 32] @ units ''2401.12345v2'' @ [9, 10, 12288]) = Arxiv
   \<and> \<not> doi_shape (units ''2401.12345v2'')
   \<and> arxiv_shape (units ''2401.12345v2'')"
proof -
  have sp: "list_all js_space [65279, 32] \<and> list_all js_space [9, 10, 12288]
      \<and> trimmed (units ''2401.12345v2'')"
    by (simp add: trimmed_def js_space_def units_def code_def)
  have tag: "detectIdentifierType ([65279, 32] @ units ''2401.12345v2'' @ [9, 10, 12288]) = Arxiv"
    by (simp add: classifier_defs)
  from sp tag
    detectIdentifierType_rules
      [of "[65279, 32] @ units ''2401.12345v2'' @ [9, 10, 12288]" "[65279, 32]"
        "[9, 10, 12288]" "units ''2401.12345v2''"]
  show ?thesis by simp
qed

subsection \<open>Bibcodes\<close>

lemma u_digit_not_space: "u_digit n \<Longrightarrow> \<not> js_space n"
  by (auto simp: u_digit_def js_space_def)

lemma u_upper_not_space: "u_upper n \<Longrightarrow> \<not> js_space n"
  by (auto simp: u_upper_def js_space_def)

lemma dot_not_space: "\<not> js_space (unit_of (CHR ''.''))"
  by (simp add: js_space_def unit_of_def code_def)

text \<open>
  C4, as stated, fails: \<open>2012sf2a.conf..123A\<close> is a four-digit year, five characters
  that are alphanumeric or a dot, nine that are alphanumeric or a dot and an upper-case
  letter, it matches neither the DOI nor the arXiv rule, and the classifier answers
  unknown: the digit \<open>2\<close> in the five-character segment is outside \<open>[A-Za-z&.]\<close>.
\<close>

theorem bibcode_digit_in_journal_counterexample:
  "length (units ''2012'') = 4 \<and> list_all u_digit (units ''2012'')
   \<and> length (units ''sf2a.'') = 5 \<and> list_all bib_journal_spec (units ''sf2a.'')
   \<and> length (units ''conf..123'') = 9 \<and> list_all bib_volume (units ''conf..123'')
   \<and> bib_last (unit_of (CHR ''A''))
   \<and> \<not> test_prefix doi_rx
        (units ''2012'' @ units ''sf2a.'' @ units ''conf..123'' @ [unit_of (CHR ''A'')])
   \<and> \<not> (test_full arxiv_new_rx
          (units ''2012'' @ units ''sf2a.'' @ units ''conf..123'' @ [unit_of (CHR ''A'')])
        \<or> test_full arxiv_old_rx
          (units ''2012'' @ units ''sf2a.'' @ units ''conf..123'' @ [unit_of (CHR ''A'')]))
   \<and> detectIdentifierType
        (units ''2012'' @ units ''sf2a.'' @ units ''conf..123'' @ [unit_of (CHR ''A'')])
       = Unknown
   \<and> detectIdentifierType
        (units ''2012'' @ units ''sf2a.'' @ units ''conf..123'' @ [unit_of (CHR ''A'')])
       \<noteq> Bibcode"
  by (simp add: classifier_defs bib_journal_spec_def bib_volume_def bib_last_def alnum_def)

text \<open>
  C4, amended. A four-digit year followed by five characters that are letters,
  ampersands or dots (no digits), then nine alphanumeric characters or dots, then one
  upper-case letter or dot, that matches neither the DOI nor the arXiv rule, is
  classified as a bibcode.
\<close>

theorem bibcode_shape_classified:
  assumes "length y = 4" "list_all u_digit y" "length j = 5" "list_all bib_journal_code j"
    "length v = 9" "list_all bib_volume v" "bib_last c"
    and "\<not> test_prefix doi_rx (y @ j @ v @ [c])"
    and "\<not> (test_full arxiv_new_rx (y @ j @ v @ [c]) \<or> test_full arxiv_old_rx (y @ j @ v @ [c]))"
  shows "detectIdentifierType (y @ j @ v @ [c]) = Bibcode"
proof -
  let ?s = "y @ j @ v @ [c]"
  from assms(1) have y: "y \<noteq> []" by auto
  with assms(2) have "u_digit (hd y)"
    by (cases y) simp_all
  with y have "\<not> js_space (hd ?s)"
    by (simp add: u_digit_not_space)
  moreover have "\<not> js_space (last ?s)"
    using assms(7) by (auto simp: bib_last_def u_upper_not_space dot_not_space)
  ultimately have "trimmed ?s"
    by (simp add: trimmed_def)
  then have "trim ?s = ?s"
    by (rule trim_trimmed)
  moreover from assms(1-7) have "bibcode_shape bib_journal_code ?s"
    unfolding bibcode_shape_def by blast
  then have "test_full bibcode_rx ?s"
    by (simp add: bibcode_rx_shape)
  ultimately show ?thesis
    using assms(8,9) by (simp add: detectIdentifierType_def)
qed

theorem bibcode_shape_classified_witness:
  "length (units ''1998'') = 4 \<and> list_all u_digit (units ''1998'')
   \<and> length (units ''A&A..'') = 5 \<and> list_all bib_journal_code (units ''A&A..'')
   \<and> length (units ''.330..515'') = 9 \<and> list_all bib_volume (units ''.330..515'')
   \<and> bib_last (unit_of (CHR ''F''))
   \<and> \<not> test_prefix doi_rx
        (units ''1998'' @ units ''A&A..'' @ units ''.330..515'' @ [unit_of (CHR ''F'')])
   \<and> \<not> (test_full arxiv_new_rx
          (units ''1998'' @ units ''A&A..'' @ units ''.330..515'' @ [unit_of (CHR ''F'')])
        \<or> test_full arxiv_old_rx
          (units ''1998'' @ units ''A&A..'' @ units ''.330..515'' @ [unit_of (CHR ''F'')]))
   \<and> detectIdentifierType
        (units ''1998'' @ units ''A&A..'' @ units ''.330..515'' @ [unit_of (CHR ''F'')])
       = Bibcode"
proof -
  have shape: "length (units ''1998'') = 4 \<and> list_all u_digit (units ''1998'')
     \<and> length (units ''A&A..'') = 5 \<and> list_all bib_journal_code (units ''A&A..'')
     \<and> length (units ''.330..515'') = 9 \<and> list_all bib_volume (units ''.330..515'')
     \<and> bib_last (unit_of (CHR ''F''))"
    by (simp add: units_def unit_of_def code_def u_digit_def u_upper_def u_lower_def
        bib_journal_code_def bib_volume_def bib_last_def alnum_def)
  have nd: "\<not> test_prefix doi_rx
      (units ''1998'' @ units ''A&A..'' @ units ''.330..515'' @ [unit_of (CHR ''F'')])"
    by (simp add: classifier_defs)
  have na: "\<not> (test_full arxiv_new_rx
        (units ''1998'' @ units ''A&A..'' @ units ''.330..515'' @ [unit_of (CHR ''F'')])
      \<or> test_full arxiv_old_rx
        (units ''1998'' @ units ''A&A..'' @ units ''.330..515'' @ [unit_of (CHR ''F'')]))"
    by (simp add: classifier_defs)
  from shape nd na
    bibcode_shape_classified [of "units ''1998''" "units ''A&A..''" "units ''.330..515''"
      "unit_of (CHR ''F'')"]
  show ?thesis by blast
qed

section \<open>Properties of the paper factory\<close>

lemma createPaper_title:
  "get_prop (createPaper data source sourceId) ''title'' =
     (case data ''title'' of None \<Rightarrow> JString ''Untitled'' | Some v \<Rightarrow> v)"
  by (simp add: createPaper_def get_prop_def js_or_def map_add_def split: option.splits)

lemma createPaper_title_absent:
  "data ''title'' = None \<Longrightarrow>
     get_prop (createPaper data source sourceId) ''title'' = JString ''Untitled''"
  by (simp add: createPaper_title)

text \<open>
  C9 fails on the code: the spread \<open>...data\<close> comes after the defaulted \<open>title\<close> and
  writes every own property of \<open>data\<close> over it. For \<open>data = { title: undefined }\<close> the
  paper's title is \<open>undefined\<close>, not a string; for \<open>{ title: null }\<close> it is \<open>null\<close>;
  for \<open>{ title: '' }\<close>, which \<open>data.title || 'Untitled'\<close> treats as no title, it is the
  empty string and not the sentinel.
\<close>

theorem createPaper_title_overwritten:
  "get_prop (createPaper [''title'' \<mapsto> JUndefined] ''ads'' ''2024ApJ...123..456A'') ''title''
     = JUndefined
   \<and> \<not> is_string
        (get_prop (createPaper [''title'' \<mapsto> JUndefined] ''ads'' ''2024ApJ...123..456A'') ''title'')
   \<and> get_prop (createPaper [''title'' \<mapsto> JNull] ''ads'' ''2024ApJ...123..456A'') ''title''
     = JNull
   \<and> get_prop (createPaper [''title'' \<mapsto> JString ''''] ''ads'' ''2024ApJ...123..456A'') ''title''
     = JString ''''
   \<and> get_prop (createPaper [''title'' \<mapsto> JString ''''] ''ads'' ''2024ApJ...123..456A'') ''title''
     \<noteq> JString ''Untitled''"
  by (simp add: createPaper_title)

section \<open>Properties of the PDF-source list\<close>

lemma esources_loop_entries:
  "esources_loop es acc n = (acc @ entries es n, n + length (entries es n))"
proof (induction es arbitrary: acc n)
  case Nil
  show ?case by simp
next
  case (Cons e es)
  show ?case
    by (simp add: Let_def entry_of_def Cons.IH)
qed

lemma entries_arxiv_urls:
  "map ps_url (filter (\<lambda>s. ps_type s = ARXIV) (entries es n))
     = map (\<lambda>e. the (e_url e)) (filter arxiv_link es)"
proof (induction es arbitrary: n)
  case Nil
  show ?case by simp
next
  case (Cons e es)
  show ?case
    by (simp add: entry_of_def arxiv_link_def Cons.IH)
qed

lemma entries_priorities:
  "map ps_priority (entries es n) = [n ..< n + length (entries es n)]"
proof (induction es arbitrary: n)
  case Nil
  show ?case by simp
next
  case (Cons e es)
  show ?case
    by (simp add: entry_of_def Cons.IH upt_rec [of n])
qed

lemma run_Many_end: "([] \<in> set (run (Many p) s)) = list_all p s"
  by (induction s) auto

lemma test_full_many1: "test_full (many1 p) s = (s \<noteq> [] \<and> list_all p s)"
  by (cases s) (auto simp: test_full_def many1_def run_Many_end)

lemma test_full_version:
  "test_full version_rx s =
     (\<exists>ds. s = CHR ''v'' # ds \<and> ds \<noteq> [] \<and> list_all digit ds)"
proof (cases s)
  case Nil
  then show ?thesis by (simp add: test_full_def version_rx_def many1_def)
next
  case (Cons c cs)
  have "test_full version_rx (c # cs) = (c = CHR ''v'' \<and> test_full (many1 digit) cs)"
    by (simp add: test_full_def version_rx_def)
  with Cons show ?thesis by (auto simp: test_full_many1)
qed

lemma v_not_digit: "\<not> digit (CHR ''v'')"
  by (simp add: digit_def code_def)

lemma replace_suffix_version:
  assumes "ds \<noteq> []" "list_all digit ds"
  shows "replace_suffix version_rx (x @ CHR ''v'' # ds) = x"
proof -
  let ?s = "x @ CHR ''v'' # ds"
  let ?P = "\<lambda>i. test_full version_rx (drop i ?s)"
  have here: "?P (length x)"
    using assms by (simp add: test_full_version)
  have before: "\<not> ?P j" if "j < length x" for j
  proof
    assume "?P j"
    then obtain es where es: "drop j ?s = CHR ''v'' # es" "list_all digit es"
      by (auto simp: test_full_version)
    from that have "drop j ?s = drop j x @ CHR ''v'' # ds" by simp
    moreover from that obtain c cs where "drop j x = c # cs"
      by (cases "drop j x") auto
    ultimately have "es = cs @ CHR ''v'' # ds" using es(1) by simp
    with es(2) show False by (simp add: v_not_digit)
  qed
  have "find ?P [0 ..< Suc (length ?s)] = Some (length x)"
    unfolding find_Some_iff
  proof (intro exI [of _ "length x"] conjI allI impI)
    show "length x < length [0 ..< Suc (length ?s)]" by simp
    show "?P ([0 ..< Suc (length ?s)] ! length x)"
      using here by (simp add: nth_upt del: upt_Suc)
    show "length x = [0 ..< Suc (length ?s)] ! length x"
      by (simp add: nth_upt del: upt_Suc)
    show "\<not> ?P ([0 ..< Suc (length ?s)] ! j)" if "j < length x" for j
      using before [OF that] that by (simp add: nth_upt del: upt_Suc)
  qed
  then show ?thesis by (simp add: replace_suffix_def del: upt_Suc)
qed

lemma run_lit_ci:
  "map to_lower p = map to_lower q \<Longrightarrow> run (lit_ci q) (p @ s) = [s]"
proof (induction q arbitrary: p)
  case Nil
  then show ?case by simp
next
  case (Cons c cs)
  then obtain d ds where "p = d # ds" by (cases p) auto
  with Cons show ?case by simp
qed

lemma run_lit_ci_take:
  "run (lit_ci q) s =
     (if map to_lower (take (length q) s) = map to_lower q then [drop (length q) s] else [])"
proof (induction q arbitrary: s)
  case Nil
  show ?case by simp
next
  case (Cons c cs)
  show ?case by (cases s) (simp_all add: Cons.IH)
qed

lemma replace_prefix_arxiv:
  "replace_prefix arxiv_prefix_rx s =
     (if map to_lower (take 6 s) = map to_lower ''arXiv:'' then drop 6 s else s)"
proof -
  have six: "length ''arXiv:'' = 6" by simp
  show ?thesis
    unfolding replace_prefix_def arxiv_prefix_rx_def run_lit_ci_take six by simp
qed

lemma cleanId_of_strips:
  assumes "map to_lower pre = map to_lower ''arXiv:''" "ds \<noteq> []" "list_all digit ds"
  shows "cleanId_of (pre @ x @ CHR ''v'' # ds) = x"
proof -
  have "replace_prefix arxiv_prefix_rx (pre @ x @ CHR ''v'' # ds) = x @ CHR ''v'' # ds"
    unfolding replace_prefix_def arxiv_prefix_rx_def run_lit_ci [OF assms(1)] by simp
  then show ?thesis
    by (simp add: cleanId_of_def replace_suffix_version [OF assms(2,3)])
qed

lemma cleanId_of_strips_version:
  assumes "map to_lower (take 6 (x @ CHR ''v'' # ds)) \<noteq> map to_lower ''arXiv:''"
    "ds \<noteq> []" "list_all digit ds"
  shows "cleanId_of (x @ CHR ''v'' # ds) = x"
  using assms(1)
  by (simp add: cleanId_of_def replace_prefix_arxiv replace_suffix_version [OF assms(2,3)])

lemma cleanId_of_examples:
  "cleanId_of ''arXiv:2401.12345v2'' = ''2401.12345''
   \<and> cleanId_of ''2401.12345v2'' = ''2401.12345''
   \<and> cleanId_of ''ARXIV:2401.12345'' = ''2401.12345''
   \<and> cleanId_of ''2401.12345'' = ''2401.12345''"
  by (simp add: cleanId_of_def replace_prefix_arxiv replace_suffix_def test_full_def
      version_rx_def many1_def to_lower_def upper_def digit_def code_def char_of_def
      bit_Suc_0_iff)

lemma no_arxiv_entry:
  "list_ex (\<lambda>s. ps_type s = ARXIV) (entries es n) = (filter arxiv_link es \<noteq> [])"
proof -
  have "list_ex (\<lambda>s. ps_type s = ARXIV) (entries es n)
      = (map ps_url (filter (\<lambda>s. ps_type s = ARXIV) (entries es n)) \<noteq> [])"
    by (simp add: list_ex_iff filter_empty_conv)
  then show ?thesis by (simp add: entries_arxiv_urls)
qed

text \<open>
  What the function returns: one entry for every esource with an \<open>http\<close> URL and a
  recognised link type, with the priorities \<open>0, 1, 2, ...\<close> in order; its arXiv-type
  entries are the arXiv links of the esources, and only when there is none and an arXiv
  identifier is known there is one arXiv-type entry, built from the identifier.
\<close>

lemma esourcesToPdfSources_entries:
  "esourcesToPdfSources esources bibcode arxivId
     = entries esources 0
       @ (if filter arxiv_link esources = [] \<and> str_truthy arxivId
          then [\<lparr>ps_type = ARXIV,
                 ps_url = ''https://arxiv.org/pdf/'' @ cleanId_of (the arxivId) @ ''.pdf'',
                 ps_label = ''arXiv PDF'', ps_requiresAuth = False,
                 ps_priority = length (entries esources 0)\<rparr>]
          else [])"
  by (simp add: esourcesToPdfSources_def esources_loop_entries no_arxiv_entry)

lemma esourcesToPdfSources_arxiv_urls:
  "map ps_url (filter (\<lambda>s. ps_type s = ARXIV) (esourcesToPdfSources esources bibcode arxivId))
     = (if filter arxiv_link esources = [] \<and> str_truthy arxivId
        then [''https://arxiv.org/pdf/'' @ cleanId_of (the arxivId) @ ''.pdf'']
        else map (\<lambda>e. the (e_url e)) (filter arxiv_link esources))"
  by (simp add: esourcesToPdfSources_def esources_loop_entries no_arxiv_entry
      entries_arxiv_urls)

lemma esourcesToPdfSources_priorities:
  "map ps_priority (esourcesToPdfSources esources bibcode arxivId)
     = [0 ..< length (esourcesToPdfSources esources bibcode arxivId)]"
  using entries_priorities [of esources 0]
  by (simp add: esourcesToPdfSources_def esources_loop_entries)

lemma esourcesToPdfSources_fallback_example:
  "esourcesToPdfSources
     [\<lparr>link_type = Some ''ESOURCE|PUB_PDF'', e_type = None,
       e_url = Some ''https://doi.org/10.1086/305772''\<rparr>]
     ''2024ApJ...123..456A'' (Some ''2401.12345v2'')
   = [\<lparr>ps_type = PUBLISHER, ps_url = ''https://doi.org/10.1086/305772'',
       ps_label = ''Publisher PDF'', ps_requiresAuth = True, ps_priority = 0\<rparr>,
      \<lparr>ps_type = ARXIV, ps_url = ''https://arxiv.org/pdf/2401.12345.pdf'',
       ps_label = ''arXiv PDF'', ps_requiresAuth = False, ps_priority = 1\<rparr>]"
  using cleanId_of_examples
  by (simp add: esourcesToPdfSources_entries entry_of_def arxiv_link_def str_truthy_def
      startsWith_def linkType_of_def)

text \<open>
  C7 fails on the code where it says that the list is deduplicated by type: the loop
  pushes an entry for every esource with a recognised link type and never looks at the
  entries that are already there. Two esources that both carry an arXiv link give two
  entries of type arXiv, with the priorities 0 and 1.
\<close>

theorem esourcesToPdfSources_duplicate_type:
  "esourcesToPdfSources
     [\<lparr>link_type = Some ''ESOURCE|EPRINT_PDF'', e_type = None,
       e_url = Some ''https://arxiv.org/pdf/2401.12345''\<rparr>,
      \<lparr>link_type = Some ''ESOURCE|EPRINT_PDF'', e_type = None,
       e_url = Some ''http://arxiv.org/pdf/2401.12345v1''\<rparr>]
     ''2024ApJ...123..456A'' None
   = [\<lparr>ps_type = ARXIV, ps_url = ''https://arxiv.org/pdf/2401.12345'',
       ps_label = ''arXiv PDF'', ps_requiresAuth = False, ps_priority = 0\<rparr>,
      \<lparr>ps_type = ARXIV, ps_url = ''http://arxiv.org/pdf/2401.12345v1'',
       ps_label = ''arXiv PDF'', ps_requiresAuth = False, ps_priority = 1\<rparr>]
   \<and> \<not> distinct
        (map ps_type
           (esourcesToPdfSources
              [\<lparr>link_type = Some ''ESOURCE|EPRINT_PDF'', e_type = None,
                e_url = Some ''https://arxiv.org/pdf/2401.12345''\<rparr>,
               \<lparr>link_type = Some ''ESOURCE|EPRINT_PDF'', e_type = None,
                e_url = Some ''http://arxiv.org/pdf/2401.12345v1''\<rparr>]
              ''2024ApJ...123..456A'' None))"
  by (simp add: esourcesToPdfSources_def Let_def str_truthy_def startsWith_def linkType_of_def)

section \<open>Properties of the registry\<close>

lemma list_filter_no_capability:
  "list_filter eo None regs = Returns (filter (\<lambda>reg. \<not> (eo \<and> \<not> enabled reg)) regs)"
  by (induction regs) auto

lemma list_plugins_no_capability:
  "list_plugins m eo None =
     Returns (map reg_plugin (filter (\<lambda>reg. \<not> (eo \<and> \<not> enabled reg)) (map_values (plugins m))))"
  by (simp add: list_plugins_def list_filter_no_capability)

lemma map_set_fresh: "\<not> map_has kvs k \<Longrightarrow> map_set kvs k v = kvs @ [(k, v)]"
  by (induction kvs) (auto simp: map_has_def)

lemma map_has_map_get: "map_has kvs k = (map_get kvs k \<noteq> None)"
  by (simp add: map_has_def map_get_def map_of_eq_None_iff)

lemma keys_set_enabled: "map fst (set_enabled kvs k b) = map fst kvs"
  by (induction kvs) (auto simp: set_enabled_def)

lemma entries_ok_set_enabled:
  "list_all entry_ok kvs \<Longrightarrow> list_all entry_ok (set_enabled kvs k b)"
  by (induction kvs) (auto simp: set_enabled_def entry_ok_def)

lemma first_id_registered:
  "list_all entry_ok kvs \<Longrightarrow>
     first_id (map reg_plugin (filter P (map_values kvs))) = Some a \<Longrightarrow> map_has kvs a"
proof (induction kvs)
  case Nil
  then show ?case by (simp add: first_id_def map_values_def)
next
  case (Cons kv kvs)
  show ?case
  proof (cases "P (snd kv)")
    case True
    with Cons.prems show ?thesis
      by (simp add: first_id_def map_values_def map_has_def entry_ok_def)
  next
    case False
    with Cons show ?thesis
      by (simp add: map_values_def map_has_def)
  qed
qed

lemma registry_ok_register: "registry_ok m \<Longrightarrow> registry_ok (snd (register m plugin now))"
  by (auto simp: register_def setActive_def registry_ok_def Let_def map_set_fresh entry_ok_def
      map_has_def)

lemma active_ok_register: "active_ok m \<Longrightarrow> active_ok (snd (register m plugin now))"
  by (auto simp: register_def setActive_def active_ok_def Let_def map_set_fresh map_has_def
      split: option.splits)

lemma registry_ok_setActive: "registry_ok m \<Longrightarrow> registry_ok (snd (setActive m k))"
  by (simp add: setActive_def registry_ok_def)

lemma active_ok_setActive: "active_ok m \<Longrightarrow> active_ok (snd (setActive m k))"
  by (auto simp: setActive_def active_ok_def split: option.splits)

lemma registry_ok_delete:
  "registry_ok m \<Longrightarrow> registry_ok (m\<lparr>plugins := map_delete (plugins m) k\<rparr>)"
  by (auto simp: registry_ok_def map_delete_def distinct_map_filter list_all_iff)

lemma registry_ok_unregister: "registry_ok m \<Longrightarrow> registry_ok (snd (unregister m k))"
  using registry_ok_delete [of m k]
  by (auto simp: unregister_def Let_def list_plugins_no_capability registry_ok_def
      split: option.splits)

lemma active_ok_unregister:
  assumes "registry_ok m" "active_ok m"
  shows "active_ok (snd (unregister m k))"
proof (cases "map_get (plugins m) k")
  case None
  with assms(2) show ?thesis by (simp add: unregister_def)
next
  case (Some registration)
  show ?thesis
  proof (cases "activePluginId m = Some k")
    case True
    have "list_all entry_ok (map_delete (plugins m) k)"
      using assms(1) by (auto simp: registry_ok_def map_delete_def list_all_iff)
    from first_id_registered [OF this, of "\<lambda>reg. True"] Some True show ?thesis
      by (auto simp: unregister_def Let_def list_plugins_no_capability active_ok_def
          split: option.splits)
  next
    case False
    with assms(2) Some show ?thesis
      by (auto simp: unregister_def Let_def active_ok_def map_has_def map_delete_def
          split: option.splits)
  qed
qed

lemma registry_ok_enable: "registry_ok m \<Longrightarrow> registry_ok (snd (enable m k))"
  by (auto simp: enable_def registry_ok_def keys_set_enabled entries_ok_set_enabled
      split: option.splits)

lemma map_has_set_enabled: "map_has (set_enabled kvs k b) a = map_has kvs a"
  by (simp add: map_has_def keys_set_enabled)

lemma active_ok_enable: "active_ok m \<Longrightarrow> active_ok (snd (enable m k))"
  by (auto simp: enable_def active_ok_def map_has_set_enabled split: option.splits)

lemma registry_ok_disable: "registry_ok m \<Longrightarrow> registry_ok (snd (disable m k))"
  by (auto simp: disable_def Let_def registry_ok_def keys_set_enabled entries_ok_set_enabled
      list_plugins_no_capability split: option.splits)

lemma active_ok_disable:
  assumes "registry_ok m" "active_ok m"
  shows "active_ok (snd (disable m k))"
proof (cases "map_get (plugins m) k")
  case None
  with assms(2) show ?thesis by (simp add: disable_def)
next
  case (Some registration)
  show ?thesis
  proof (cases "activePluginId m = Some k")
    case True
    have "list_all entry_ok (set_enabled (plugins m) k False)"
      using assms(1) by (simp add: registry_ok_def entries_ok_set_enabled)
    from first_id_registered [OF this, of "\<lambda>reg. \<not> (True \<and> \<not> enabled reg)"] Some True
    show ?thesis
      by (auto simp: disable_def Let_def list_plugins_no_capability active_ok_def
          split: option.splits)
  next
    case False
    with assms(2) Some show ?thesis
      by (auto simp: disable_def Let_def active_ok_def map_has_set_enabled
          split: option.splits)
  qed
qed

lemma keys_initialize: "map fst (plugins (snd (initialize m))) = map fst (plugins m)"
  by (auto simp: initialize_def split: option.splits outcome.splits)

lemma registry_ok_initialize: "registry_ok m \<Longrightarrow> registry_ok (snd (initialize m))"
  unfolding registry_ok_def keys_initialize
  by (auto simp: initialize_def list_all_iff entry_ok_def split: option.splits outcome.splits)

lemma active_ok_initialize: "active_ok m \<Longrightarrow> active_ok (snd (initialize m))"
  using keys_initialize [of m]
  by (auto simp: active_ok_def map_has_def initialize_def split: option.splits)

lemma inv_shutdown: "registry_ok (snd (shutdown m)) \<and> active_ok (snd (shutdown m))"
  by (simp add: shutdown_def registry_ok_def active_ok_def)

lemma apply_operation_inv:
  assumes "registry_ok m \<and> active_ok m"
  shows "registry_ok (snd (apply_operation m op)) \<and> active_ok (snd (apply_operation m op))"
  using assms
  by (cases op)
    (simp_all add: registry_ok_register active_ok_register registry_ok_unregister
      active_ok_unregister registry_ok_setActive active_ok_setActive registry_ok_enable
      active_ok_enable registry_ok_disable active_ok_disable registry_ok_initialize
      active_ok_initialize inv_shutdown)

lemma run_operations_inv:
  "registry_ok m \<and> active_ok m \<Longrightarrow>
     registry_ok (run_operations m ops) \<and> active_ok (run_operations m ops)"
  by (induction ops arbitrary: m) (simp_all add: apply_operation_inv)

lemma new_manager_inv: "registry_ok new_manager \<and> active_ok new_manager"
  by (simp add: new_manager_def registry_ok_def active_ok_def)

text \<open>
  C10. After any sequence of \<open>register\<close>, \<open>unregister\<close>, \<open>setActive\<close>,
  \<open>enable\<close>, \<open>disable\<close>, \<open>initialize\<close> and \<open>shutdown\<close> calls on a new manager,
  whether they return or throw, the active-plugin pointer is \<open>null\<close> or the id of a
  registered plugin.
\<close>

theorem active_pointer_registered:
  "active_ok (run_operations new_manager ops)"
  using run_operations_inv [OF new_manager_inv, of ops] by simp

lemma test_full_plugin_id: "test_full plugin_id_rx s = id_well_formed s"
  by (cases s) (auto simp: test_full_def plugin_id_rx_def id_well_formed_def run_Many_end)

lemma validatePlugin_valid_iff:
  "validatePlugin_valid p =
     (\<not> missing_required p \<and> id_well_formed (p_id p) \<and> \<not> missing_method p)"
  by (auto simp: validatePlugin_valid_def validatePlugin_errors_def missing_required_def
      missing_method_def test_full_plugin_id id_well_formed_def)

lemma keys_map_set: "fst ` set (map_set kvs k v) = insert k (fst ` set kvs)"
proof (induction kvs)
  case Nil
  show ?case by simp
next
  case (Cons kv kvs)
  obtain k' v' where kv: "kv = (k', v')" by (cases kv)
  show ?case
  proof (cases "k' = k")
    case True
    with kv show ?thesis by simp
  next
    case False
    with kv Cons.IH show ?thesis by (simp add: insert_commute)
  qed
qed

lemma map_has_map_set: "map_has (map_set kvs k v) k' = (k' = k \<or> map_has kvs k')"
  by (simp add: map_has_def keys_map_set)

lemma register_fails_iff:
  "(fst (register m p now) \<noteq> Returns ()) =
     (\<not> validatePlugin_valid p \<or> map_has (plugins m) (p_id p))"
  by (auto simp: register_def setActive_def Let_def map_has_map_set)

lemma register_fails_unchanged:
  "fst (register m p now) \<noteq> Returns () \<Longrightarrow> snd (register m p now) = m"
  by (auto simp: register_def setActive_def Let_def map_has_map_set split: if_splits)

lemma register_ok_plugins:
  "fst (register m p now) = Returns () \<Longrightarrow>
     plugins (snd (register m p now)) =
       plugins m @ [(p_id p, \<lparr>reg_id = p_id p, reg_plugin = p, enabled = True,
                               registeredAt = now\<rparr>)]"
  by (auto simp: register_def setActive_def Let_def map_set_fresh map_has_map_set
      split: if_splits)

lemma map_get_append_fresh:
  "\<not> map_has kvs k \<Longrightarrow> map_get (kvs @ [(k, v)]) k = Some v"
  by (induction kvs) (auto simp: map_has_def map_get_def)

text \<open>
  C5, amended. \<open>register(plugin)\<close> fails exactly when the plugin fails interface
  validation (a missing required field \<open>id\<close>, \<open>name\<close>, \<open>capabilities\<close> or \<open>auth\<close>,
  a malformed id, or a declared \<open>search\<close>, \<open>lookup\<close> or \<open>pdfDownload\<close> capability
  without \<open>search()\<close>, \<open>getRecord()\<close>, or \<open>getPdfSources()\<close> and \<open>downloadPdf()\<close>;
  the \<open>references\<close>, \<open>citations\<close>, \<open>bibtex\<close> and \<open>metadata\<close> flags are not
  checked) or when its id is already registered. A failing call leaves the manager
  unchanged, a successful one appends the registration; so a second plugin with the id of
  a registered one is rejected and the registry keeps the first.
\<close>

theorem register_fails_exactly:
  "(fst (register m p now) \<noteq> Returns ()) =
      (missing_required p \<or> \<not> id_well_formed (p_id p) \<or> missing_method p
       \<or> map_has (plugins m) (p_id p))
   \<and> (fst (register m p now) \<noteq> Returns () \<longrightarrow> snd (register m p now) = m)
   \<and> (fst (register m p now) = Returns () \<longrightarrow>
        plugins (snd (register m p now)) =
          plugins m @ [(p_id p, \<lparr>reg_id = p_id p, reg_plugin = p, enabled = True,
                                  registeredAt = now\<rparr>)])
   \<and> (fst (register m p now) = Returns () \<and> p_id p' = p_id p \<longrightarrow>
        fst (register (snd (register m p now)) p' now') \<noteq> Returns ()
        \<and> snd (register (snd (register m p now)) p' now') = snd (register m p now)
        \<and> get (snd (register m p now)) (p_id p) = Some p)"
proof (intro conjI impI)
  show "(fst (register m p now) \<noteq> Returns ()) =
      (missing_required p \<or> \<not> id_well_formed (p_id p) \<or> missing_method p
       \<or> map_has (plugins m) (p_id p))"
    unfolding register_fails_iff validatePlugin_valid_iff by blast
  show "snd (register m p now) = m" if "fst (register m p now) \<noteq> Returns ()"
    using that by (rule register_fails_unchanged)
  show "plugins (snd (register m p now)) =
          plugins m @ [(p_id p, \<lparr>reg_id = p_id p, reg_plugin = p, enabled = True,
                                  registeredAt = now\<rparr>)]"
    if "fst (register m p now) = Returns ()"
    using that by (rule register_ok_plugins)
next
  assume a: "fst (register m p now) = Returns () \<and> p_id p' = p_id p"
  let ?m1 = "snd (register m p now)"
  from a have fresh: "\<not> map_has (plugins m) (p_id p)"
    using register_fails_iff [of m p now] by simp
  from a have pl: "plugins ?m1 =
          plugins m @ [(p_id p, \<lparr>reg_id = p_id p, reg_plugin = p, enabled = True,
                                  registeredAt = now\<rparr>)]"
    by (simp add: register_ok_plugins)
  then have has: "map_has (plugins ?m1) (p_id p')"
    using a by (simp add: map_has_def)
  then show "fst (register ?m1 p' now') \<noteq> Returns ()"
    by (simp add: register_fails_iff)
  then show "snd (register ?m1 p' now') = ?m1"
    by (rule register_fails_unchanged)
  show "get ?m1 (p_id p) = Some p"
    by (simp add: get_def pl map_get_append_fresh [OF fresh])
qed

lemmas example_defs = stub_plugin_def caps_none_def status_free_def

lemmas validate_defs =
  validatePlugin_valid_def validatePlugin_errors_def declares_def test_full_def
  plugin_id_rx_def lower_def digit_def code_def

theorem register_fails_exactly_witness:
  "fst (register new_manager (stub_plugin ''ads'') 0) = Returns ()
   \<and> p_id ((stub_plugin ''ads'')\<lparr>p_name := ''Second''\<rparr>) = p_id (stub_plugin ''ads'')
   \<and> fst (register (snd (register new_manager (stub_plugin ''ads'') 0))
             ((stub_plugin ''ads'')\<lparr>p_name := ''Second''\<rparr>) 1) \<noteq> Returns ()
   \<and> snd (register (snd (register new_manager (stub_plugin ''ads'') 0))
             ((stub_plugin ''ads'')\<lparr>p_name := ''Second''\<rparr>) 1)
       = snd (register new_manager (stub_plugin ''ads'') 0)
   \<and> get (snd (register new_manager (stub_plugin ''ads'') 0)) ''ads'' = Some (stub_plugin ''ads'')"
proof -
  have ok: "fst (register new_manager (stub_plugin ''ads'') 0) = Returns ()"
    by (simp add: register_def setActive_def new_manager_def map_has_def validate_defs
        example_defs)
  have same: "p_id ((stub_plugin ''ads'')\<lparr>p_name := ''Second''\<rparr>) = p_id (stub_plugin ''ads'')"
    by simp
  have i: "p_id (stub_plugin ''ads'') = ''ads''"
    by (simp add: stub_plugin_def)
  from ok same
    register_fails_exactly [of new_manager "stub_plugin ''ads''" 0
      "(stub_plugin ''ads'')\<lparr>p_name := ''Second''\<rparr>" 1]
  show ?thesis unfolding i by blast
qed

text \<open>
  C5, as stated, fails: a plugin that declares the references, citations, bibtex and
  metadata capabilities without any of their methods, and is otherwise well formed, is
  registered.
\<close>

theorem register_unchecked_capability_counterexample:
  "declares refs_plugin CapReferences \<and> \<not> has_getReferences refs_plugin
   \<and> declares refs_plugin CapCitations \<and> \<not> has_getCitations refs_plugin
   \<and> declares refs_plugin CapBibtex \<and> \<not> has_getBibtex refs_plugin
   \<and> declares refs_plugin CapMetadata
   \<and> \<not> map_has (plugins (new_manager :: unit manager)) (p_id refs_plugin)
   \<and> fst (register new_manager refs_plugin 0) = Returns ()
   \<and> map fst (plugins (snd (register new_manager refs_plugin 0))) = [''refs'']"
  by (simp add: refs_plugin_def register_def setActive_def new_manager_def map_has_def
      validate_defs example_defs)

lemma unregister_promotes:
  assumes ok: "registry_ok m" and act: "activePluginId m = Some a"
    and has: "map_has (plugins m) a" and rest: "map_delete (plugins m) a = (k, r) # rest"
  shows "fst (unregister m a) = Returns () \<and> plugins (snd (unregister m a)) = (k, r) # rest
    \<and> activePluginId (snd (unregister m a)) = Some k \<and> k \<noteq> a \<and> map_has (plugins m) k"
proof -
  from has obtain reg where reg: "map_get (plugins m) a = Some reg"
    by (auto simp: map_has_map_get)
  have mem: "(k, r) \<in> set (filter (\<lambda>kv. fst kv \<noteq> a) (plugins m))"
    using rest by (simp add: map_delete_def)
  then have "entry_ok (k, r)" and ne: "k \<noteq> a" and reg_k: "map_has (plugins m) k"
    using ok by (auto simp: registry_ok_def list_all_iff map_has_def intro: rev_image_eqI)
  then have "p_id (reg_plugin r) = k" by (simp add: entry_ok_def)
  with reg act rest ne reg_k show ?thesis
    by (simp add: unregister_def Let_def list_plugins_no_capability map_values_def first_id_def)
qed

lemma unregister_last:
  assumes "plugins m = [(a, r)]" "active_ok m"
  shows "fst (unregister m a) = Returns () \<and> plugins (snd (unregister m a)) = []
    \<and> activePluginId (snd (unregister m a)) = None"
proof (cases "activePluginId m")
  case None
  with assms(1) show ?thesis
    by (simp add: unregister_def Let_def map_get_def map_delete_def)
next
  case (Some b)
  with assms have "b = a" by (simp add: active_ok_def map_has_def)
  with Some assms(1) show ?thesis
    by (simp add: unregister_def Let_def map_get_def map_delete_def list_plugins_no_capability
        map_values_def first_id_def)
qed

lemma register_first:
  assumes "plugins m = []" "active_ok m" "validatePlugin_valid p"
  shows "fst (register m p now) = Returns () \<and> activePluginId (snd (register m p now)) = Some (p_id p)
    \<and> map fst (plugins (snd (register m p now))) = [p_id p]"
proof -
  from assms(1,2) have "activePluginId m = None"
    by (cases "activePluginId m") (simp_all add: active_ok_def map_has_def)
  with assms(1,3) show ?thesis
    by (simp add: register_def setActive_def Let_def map_has_def)
qed

text \<open>
  C6. Registering a valid plugin with an empty registry makes it the active plugin.
  Unregistering the active plugin while others remain makes the first remaining
  registration, in registration order, the active one, and that is another registered
  plugin. Unregistering the only registered plugin leaves no active plugin.
\<close>

theorem active_plugin_auto_promotion:
  "(plugins m = [] \<and> active_ok m \<and> validatePlugin_valid p \<longrightarrow>
      fst (register m p now) = Returns ()
      \<and> activePluginId (snd (register m p now)) = Some (p_id p)
      \<and> map fst (plugins (snd (register m p now))) = [p_id p])
   \<and> (registry_ok m \<and> activePluginId m = Some a \<and> map_has (plugins m) a
       \<and> map_delete (plugins m) a = (k, r) # rest \<longrightarrow>
      fst (unregister m a) = Returns ()
      \<and> plugins (snd (unregister m a)) = (k, r) # rest
      \<and> activePluginId (snd (unregister m a)) = Some k \<and> k \<noteq> a \<and> map_has (plugins m) k)
   \<and> (plugins m = [(a, r)] \<and> active_ok m \<longrightarrow>
      fst (unregister m a) = Returns ()
      \<and> plugins (snd (unregister m a)) = []
      \<and> activePluginId (snd (unregister m a)) = None)"
  using register_first [of m p now] unregister_promotes [of m a k r rest] unregister_last [of m a r]
  by blast

lemma three_plugins_eq:
  "three_plugins =
     \<lparr>plugins =
        [(''ads'', \<lparr>reg_id = ''ads'', reg_plugin = stub_plugin ''ads'', enabled = True,
                     registeredAt = 0\<rparr>),
         (''arxiv'', \<lparr>reg_id = ''arxiv'', reg_plugin = stub_plugin ''arxiv'', enabled = True,
                     registeredAt = 1\<rparr>),
         (''inspire'', \<lparr>reg_id = ''inspire'', reg_plugin = stub_plugin ''inspire'',
                     enabled = True, registeredAt = 2\<rparr>)],
      activePluginId = Some ''ads'', lastRequestTime = Map.empty\<rparr>"
  by (simp add: three_plugins_def register_def setActive_def new_manager_def map_has_def
      validate_defs example_defs)

lemma one_plugin_eq:
  "one_plugin =
     \<lparr>plugins =
        [(''ads'', \<lparr>reg_id = ''ads'', reg_plugin = stub_plugin ''ads'', enabled = True,
                     registeredAt = 0\<rparr>)],
      activePluginId = Some ''ads'', lastRequestTime = Map.empty\<rparr>"
  by (simp add: one_plugin_def register_def setActive_def new_manager_def map_has_def
      validate_defs example_defs)

theorem active_plugin_auto_promotion_witness:
  "plugins (new_manager :: unit manager) = [] \<and> active_ok (new_manager :: unit manager)
   \<and> validatePlugin_valid (stub_plugin ''ads'')
   \<and> activePluginId (snd (register new_manager (stub_plugin ''ads'') 0)) = Some ''ads''
   \<and> registry_ok three_plugins \<and> activePluginId three_plugins = Some ''ads''
   \<and> map_has (plugins three_plugins) ''ads''
   \<and> map fst (map_delete (plugins three_plugins) ''ads'') = [''arxiv'', ''inspire'']
   \<and> activePluginId (snd (unregister three_plugins ''ads'')) = Some ''arxiv''
   \<and> map fst (plugins one_plugin) = [''ads''] \<and> active_ok one_plugin
   \<and> plugins (snd (unregister one_plugin ''ads'')) = []
   \<and> activePluginId (snd (unregister one_plugin ''ads'')) = None"
proof -
  have new: "plugins (new_manager :: unit manager) = [] \<and> active_ok (new_manager :: unit manager)"
    by (simp add: new_manager_def active_ok_def)
  have valid: "validatePlugin_valid (stub_plugin ''ads'')"
    by (simp add: validate_defs example_defs)
  have i: "p_id (stub_plugin ''ads'') = ''ads''"
    by (simp add: stub_plugin_def)
  have three: "registry_ok three_plugins"
    unfolding three_plugins_def using run_operations_inv [OF new_manager_inv] by blast
  have act: "activePluginId three_plugins = Some ''ads'' \<and> map_has (plugins three_plugins) ''ads''"
    by (simp add: three_plugins_eq map_has_def)
  have del: "map_delete (plugins three_plugins) ''ads'' =
      (''arxiv'', \<lparr>reg_id = ''arxiv'', reg_plugin = stub_plugin ''arxiv'', enabled = True,
                     registeredAt = 1\<rparr>)
      # [(''inspire'', \<lparr>reg_id = ''inspire'', reg_plugin = stub_plugin ''inspire'',
                     enabled = True, registeredAt = 2\<rparr>)]"
    by (simp add: three_plugins_eq map_delete_def)
  have one: "plugins one_plugin =
      [(''ads'', \<lparr>reg_id = ''ads'', reg_plugin = stub_plugin ''ads'', enabled = True,
                     registeredAt = 0\<rparr>)] \<and> active_ok one_plugin"
    by (simp add: one_plugin_eq active_ok_def map_has_def)
  note first = active_plugin_auto_promotion [where m = "new_manager :: unit manager"
      and p = "stub_plugin ''ads''" and now = 0]
  note last = active_plugin_auto_promotion [where m = one_plugin and a = "''ads''"]
  have p1: "activePluginId (snd (register new_manager (stub_plugin ''ads'') 0)) = Some ''ads''"
    using first new valid i by simp
  have p2: "activePluginId (snd (unregister three_plugins ''ads'')) = Some ''arxiv''"
    using active_plugin_auto_promotion [of three_plugins _ _ "''ads''" "''arxiv''"] three act del
    by blast
  have p3: "plugins (snd (unregister one_plugin ''ads'')) = []
      \<and> activePluginId (snd (unregister one_plugin ''ads'')) = None"
    using last one by blast
  from new valid p1 three act del one p2 p3 show ?thesis by simp
qed

section \<open>Properties of the rate limiter\<close>

lemma getMinDelay_values: "getMinDelay k = Ms d \<Longrightarrow> d \<in> {50, 3000, 350, 100}"
  by (auto simp: getMinDelay_def delays_def split: option.splits delay.splits if_splits)

lemma getMinDelay_default:
  "k \<notin> {''ads'', ''arxiv'', ''inspire''} \<Longrightarrow> k \<notin> set object_prototype_names \<Longrightarrow>
     getMinDelay k = Ms 100"
  by (auto simp: getMinDelay_def delays_def)

lemma getMinDelay_known:
  "getMinDelay ''ads'' = Ms 50 \<and> getMinDelay ''arxiv'' = Ms 3000 \<and> getMinDelay ''inspire'' = Ms 350"
  by (simp add: getMinDelay_def delays_def)

lemma getMinDelay_constructor:
  "id_well_formed ''constructor'' \<and> getMinDelay ''constructor'' = Inherited"
  by (simp add: getMinDelay_def delays_def object_prototype_names_def id_well_formed_def
      lower_def code_def)


lemma enforceRateLimit_registry:
  "plugins (fst (snd (enforceRateLimit m k now tm))) = plugins m
   \<and> activePluginId (fst (snd (enforceRateLimit m k now tm))) = activePluginId m"
  by (simp add: enforceRateLimit_def Let_def split: option.splits outcome.splits)









section \<open>Properties of federated search\<close>

lemma valid_has_capabilities: "validatePlugin_valid p \<Longrightarrow> p_capabilities p \<noteq> None"
  by (simp add: validatePlugin_valid_iff missing_required_def)

lemma list_filter_capability:
  "list_all (\<lambda>reg. p_capabilities (reg_plugin reg) \<noteq> None) regs \<Longrightarrow>
     list_filter eo (Some c) regs =
       Returns (filter (\<lambda>reg. \<not> (eo \<and> \<not> enabled reg) \<and> declares (reg_plugin reg) c) regs)"
  by (induction regs) (auto simp: declares_def)

lemma list_plugins_capability:
  assumes "registry_ok m"
  shows "list_plugins m eo (Some c) =
     Returns (map reg_plugin
       (filter (\<lambda>reg. \<not> (eo \<and> \<not> enabled reg) \<and> declares (reg_plugin reg) c)
          (map_values (plugins m))))"
proof -
  have "p_capabilities (reg_plugin (snd kv)) \<noteq> None" if "kv \<in> set (plugins m)" for kv
  proof -
    from assms that have "validatePlugin_valid (reg_plugin (snd kv))"
      by (simp add: registry_ok_def list_all_iff entry_ok_def)
    then show ?thesis by (rule valid_has_capabilities)
  qed
  then have "list_all (\<lambda>reg. p_capabilities (reg_plugin reg) \<noteq> None) (map_values (plugins m))"
    by (simp add: list_all_iff map_values_def)
  then show ?thesis by (simp add: list_plugins_def list_filter_capability)
qed

lemma enforceRateLimit_outcome:
  "get m k = Some p \<Longrightarrow>
     fst (enforceRateLimit m k now tm) =
       (case p_getRateLimitStatus p of Some (Throws e) \<Rightarrow> Throws e | _ \<Rightarrow> Returns ())"
  by (simp add: enforceRateLimit_def Let_def split: option.splits outcome.splits)

lemma get_enforceRateLimit:
  "get (fst (snd (enforceRateLimit m k now tm))) k' = get m k'"
  using enforceRateLimit_registry [of m k now tm] by (simp add: get_def)






lemma registered_get:
  assumes "registry_ok m" "(k, reg) \<in> set (plugins m)"
  shows "get m k = Some (reg_plugin reg) \<and> p_id (reg_plugin reg) = k \<and> map_get (plugins m) k = Some reg"
proof -
  from assms have "map_of (plugins m) k = Some reg"
    by (simp add: registry_ok_def)
  moreover from assms have "p_id (reg_plugin reg) = k"
    by (auto simp: registry_ok_def list_all_iff entry_ok_def)
  ultimately show ?thesis by (simp add: get_def map_get_def)
qed




lemmas manager_defs =
  register_def setActive_def new_manager_def map_has_def validate_defs example_defs



section \<open>Properties of lookup\<close>

text \<open>
  For a registry built by \<open>register\<close>: unless a plugin throws \<open>undefined\<close> or
  \<open>null\<close>, \<open>lookup\<close> returns; and when what each candidate answers does not depend on
  the time at which it is asked, the result of \<open>lookup\<close> is the first paper found among
  the candidates in their order.
\<close>

lemma try_lookup_outcome:
  assumes "get m (p_id p) = Some p"
  shows "fst (try_lookup m p identifier (detectIdentifierType identifier) now tm) =
     (case lookup_attempt p identifier (dispatch_time m (p_id p) now tm) of
        Returns found \<Rightarrow> Returns found
      | Throws err \<Rightarrow> (case read_message err of Throws e \<Rightarrow> Throws e | Returns u \<Rightarrow> Returns None))"
proof -
  obtain out m1 t where run: "enforceRateLimit m (p_id p) now tm = (out, m1, t)"
    by (cases "enforceRateLimit m (p_id p) now tm") auto
  with enforceRateLimit_outcome [OF assms, of now tm]
  have out: "out = (case p_getRateLimitStatus p of Some (Throws e) \<Rightarrow> Throws e | _ \<Rightarrow> Returns ())"
    by simp
  show ?thesis
    by (simp add: try_lookup_def lookupWithPlugin_def lookup_attempt_def dispatch_time_def
        run out split: option.splits outcome.splits)
qed

lemma get_try_lookup:
  "get (fst (snd (try_lookup m p identifier idType now tm))) k = get m k"
proof -
  obtain out m1 t where run: "enforceRateLimit m (p_id p) now tm = (out, m1, t)"
    by (cases "enforceRateLimit m (p_id p) now tm") auto
  with get_enforceRateLimit [of m "p_id p" now tm k] have "get m1 k = get m k" by simp
  then show ?thesis
    by (simp add: try_lookup_def lookupWithPlugin_def run split: option.splits outcome.splits)
qed

lemma read_message_returns:
  "err \<noteq> ThrownValue JUndefined \<Longrightarrow> err \<noteq> ThrownValue JNull \<Longrightarrow>
     read_message err = Returns ()"
  by (simp add: read_message_def split: thrown.splits jsval.splits)

lemma registered_listed:
  assumes "registry_ok m"
  shows "\<forall>p\<in>set (map reg_plugin (filter P (map_values (plugins m)))). get m (p_id p) = Some p"
proof
  fix p assume "p \<in> set (map reg_plugin (filter P (map_values (plugins m))))"
  then obtain kv where kv: "kv \<in> set (plugins m)" "p = reg_plugin (snd kv)"
    unfolding map_values_def by auto
  obtain k reg where "kv = (k, reg)" by (cases kv)
  with kv registered_get [OF assms, of k reg] show "get m (p_id p) = Some p" by simp
qed

lemma active_registered:
  assumes "registry_ok m" "getActive m = Some active"
  shows "get m (p_id active) = Some active \<and> (\<exists>caps. p_capabilities active = Some caps)"
proof -
  from assms(2) obtain a where a: "activePluginId m = Some a" "get m a = Some active"
    by (auto simp: getActive_def split: option.splits if_splits)
  then obtain reg where reg: "map_get (plugins m) a = Some reg" "active = reg_plugin reg"
    by (auto simp: get_def)
  then have mem: "(a, reg) \<in> set (plugins m)"
    by (simp add: map_get_def map_of_SomeD)
  from registered_get [OF assms(1) mem] reg have here: "get m (p_id active) = Some active"
    by simp
  from assms(1) mem reg have "validatePlugin_valid active"
    by (auto simp: registry_ok_def list_all_iff entry_ok_def)
  then have "\<exists>caps. p_capabilities active = Some caps"
    using valid_has_capabilities by blast
  with here show ?thesis by simp
qed

lemma lookup_candidates_listed:
  "lookup_candidates m =
     (case getActive m of
        None \<Rightarrow> []
      | Some active \<Rightarrow> if declares active CapLookup then [active] else [])
     @ filter (\<lambda>p. Some (p_id p) \<noteq> map_option p_id (getActive m))
         (map reg_plugin
            (filter (\<lambda>reg. \<not> (True \<and> \<not> enabled reg) \<and> declares (reg_plugin reg) CapLookup)
               (map_values (plugins m))))"
  by (simp add: lookup_candidates_def)

subsection \<open>Errors that are misses\<close>

lemma lookup_loop_returns:
  assumes "\<forall>p\<in>set ps. get m (p_id p) = Some p"
    and "\<forall>p\<in>set (filter (\<lambda>p. Some (p_id p) \<noteq> activeId) ps). \<forall>t.
           lookup_attempt p identifier t \<noteq> Throws (ThrownValue JUndefined)
           \<and> lookup_attempt p identifier t \<noteq> Throws (ThrownValue JNull)"
  shows "\<exists>found.
     fst (lookup_loop activeId identifier (detectIdentifierType identifier) tm ps m now)
       = Returns found"
  using assms
proof (induction ps arbitrary: m now)
  case Nil
  show ?case by simp
next
  case (Cons p ps)
  show ?case
  proof (cases "Some (p_id p) = activeId")
    case True
    with Cons.prems have "\<forall>p\<in>set ps. get m (p_id p) = Some p"
      and "\<forall>p\<in>set (filter (\<lambda>p. Some (p_id p) \<noteq> activeId) ps). \<forall>t.
           lookup_attempt p identifier t \<noteq> Throws (ThrownValue JUndefined)
           \<and> lookup_attempt p identifier t \<noteq> Throws (ThrownValue JNull)"
      by simp_all
    from Cons.IH [OF this, of now] True show ?thesis by simp
  next
    case False
    let ?idType = "detectIdentifierType identifier"
    let ?t = "dispatch_time m (p_id p) now (tm (p_id p))"
    obtain out m1 t where run: "try_lookup m p identifier ?idType now (tm (p_id p)) = (out, m1, t)"
      by (cases "try_lookup m p identifier ?idType now (tm (p_id p))") auto
    from Cons.prems have here: "get m (p_id p) = Some p" by simp
    from try_lookup_outcome [OF here, of "identifier" now "tm (p_id p)"] run
    have out: "out = (case lookup_attempt p identifier ?t of
        Returns found \<Rightarrow> Returns found
      | Throws err \<Rightarrow> (case read_message err of Throws e \<Rightarrow> Throws e | Returns u \<Rightarrow> Returns None))"
      by simp
    from Cons.prems(2) False
    have safe: "lookup_attempt p identifier ?t \<noteq> Throws (ThrownValue JUndefined)"
      "lookup_attempt p identifier ?t \<noteq> Throws (ThrownValue JNull)"
      by simp_all
    from get_try_lookup [of m p "identifier" ?idType now "tm (p_id p)"] run
    have "get m1 k = get m k" for k by simp
    with Cons.prems have regs: "\<forall>p\<in>set ps. get m1 (p_id p) = Some p" by simp
    from Cons.prems(2) False
    have rest: "\<forall>p\<in>set (filter (\<lambda>p. Some (p_id p) \<noteq> activeId) ps). \<forall>t.
           lookup_attempt p identifier t \<noteq> Throws (ThrownValue JUndefined)
           \<and> lookup_attempt p identifier t \<noteq> Throws (ThrownValue JNull)"
      by simp
    from Cons.IH [OF regs rest, of t] obtain found where
      IH: "fst (lookup_loop activeId identifier ?idType tm ps m1 t) = Returns found"
      by blast
    show ?thesis
    proof (cases "lookup_attempt p identifier ?t")
      case (Returns r)
      with False run out IH show ?thesis by (cases r) simp_all
    next
      case (Throws err)
      with safe have "read_message err = Returns ()"
        by (simp add: read_message_returns)
      with Throws False run out IH show ?thesis by simp
    qed
  qed
qed

lemma lookup_errors_are_misses:
  assumes "registry_ok m"
    and safe: "\<forall>p\<in>set (lookup_candidates m). \<forall>t.
           lookup_attempt p identifier t \<noteq> Throws (ThrownValue JUndefined)
           \<and> lookup_attempt p identifier t \<noteq> Throws (ThrownValue JNull)"
  shows "\<exists>found. fst (lookup m identifier now tm) = Returns found"
proof -
  define ps where "ps = map reg_plugin
     (filter (\<lambda>reg. \<not> (True \<and> \<not> enabled reg) \<and> declares (reg_plugin reg) CapLookup)
        (map_values (plugins m)))"
  let ?idType = "detectIdentifierType identifier"
  have listed: "list_plugins m True (Some CapLookup) = Returns ps"
    unfolding ps_def by (rule list_plugins_capability [OF assms(1)])
  have regs: "\<forall>p\<in>set ps. get m (p_id p) = Some p"
    unfolding ps_def by (rule registered_listed [OF assms(1)])
  have cands: "lookup_candidates m =
     (case getActive m of
        None \<Rightarrow> []
      | Some active \<Rightarrow> if declares active CapLookup then [active] else [])
     @ filter (\<lambda>p. Some (p_id p) \<noteq> map_option p_id (getActive m)) ps"
    unfolding ps_def by (rule lookup_candidates_listed)
  from safe have others: "\<forall>p\<in>set (filter (\<lambda>p. Some (p_id p) \<noteq> map_option p_id (getActive m)) ps).
      \<forall>t. lookup_attempt p identifier t \<noteq> Throws (ThrownValue JUndefined)
           \<and> lookup_attempt p identifier t \<noteq> Throws (ThrownValue JNull)"
    unfolding cands by simp
  show ?thesis
  proof (cases "getActive m")
    case None
    with others have "\<forall>p\<in>set (filter (\<lambda>p. Some (p_id p) \<noteq> None) ps).
      \<forall>t. lookup_attempt p identifier t \<noteq> Throws (ThrownValue JUndefined)
           \<and> lookup_attempt p identifier t \<noteq> Throws (ThrownValue JNull)"
      by simp
    from lookup_loop_returns [OF regs this, of tm now] None show ?thesis
      by (simp add: lookup_def listed)
  next
    case (Some active)
    with others have rest: "\<forall>p\<in>set (filter (\<lambda>p. Some (p_id p) \<noteq> Some (p_id active)) ps).
      \<forall>t. lookup_attempt p identifier t \<noteq> Throws (ThrownValue JUndefined)
           \<and> lookup_attempt p identifier t \<noteq> Throws (ThrownValue JNull)"
      by simp
    from active_registered [OF assms(1) Some] obtain caps where
      here: "get m (p_id active) = Some active" and caps: "p_capabilities active = Some caps"
      by blast
    show ?thesis
    proof (cases "cap_lookup caps")
      case False
      from lookup_loop_returns [OF regs rest, of tm now] False Some caps show ?thesis
        by (simp add: lookup_def listed)
    next
      case True
      let ?t = "dispatch_time m (p_id active) now (tm (p_id active))"
      obtain out m1 t where run:
        "try_lookup m active identifier ?idType now (tm (p_id active)) = (out, m1, t)"
        by (cases "try_lookup m active identifier ?idType now (tm (p_id active))") auto
      from try_lookup_outcome [OF here, of "identifier" now "tm (p_id active)"] run
      have out: "out = (case lookup_attempt active identifier ?t of
          Returns found \<Rightarrow> Returns found
        | Throws err \<Rightarrow> (case read_message err of Throws e \<Rightarrow> Throws e | Returns u \<Rightarrow> Returns None))"
        by simp
      from True Some caps have "active \<in> set (lookup_candidates m)"
        by (simp add: cands declares_def)
      with safe have first: "lookup_attempt active identifier ?t \<noteq> Throws (ThrownValue JUndefined)"
        "lookup_attempt active identifier ?t \<noteq> Throws (ThrownValue JNull)"
        by simp_all
      from get_try_lookup [of m active "identifier" ?idType now "tm (p_id active)"] run
      have "get m1 k = get m k" for k by simp
      with regs have "\<forall>p\<in>set ps. get m1 (p_id p) = Some p" by simp
      from lookup_loop_returns [OF this rest, of tm t] obtain found where
        loop: "fst (lookup_loop (Some (p_id active)) identifier ?idType tm ps m1 t) = Returns found"
        by blast
      show ?thesis
      proof (cases "lookup_attempt active identifier ?t")
        case (Returns r)
        with True Some caps run out loop show ?thesis
          by (cases r) (simp_all add: lookup_def listed)
      next
        case (Throws err)
        with first have "read_message err = Returns ()"
          by (simp add: read_message_returns)
        with Throws True Some caps run out loop show ?thesis
          by (simp add: lookup_def listed)
      qed
    qed
  qed
qed

subsection \<open>The first paper found\<close>

lemma lookup_loop_first_found:
  assumes "\<forall>p\<in>set ps. get m (p_id p) = Some p"
    and "\<forall>p\<in>set (filter (\<lambda>p. Some (p_id p) \<noteq> activeId) ps). \<forall>t.
           lookup_attempt p identifier t = answer p"
  shows "fst (lookup_loop activeId identifier (detectIdentifierType identifier) tm ps m now) =
     first_found answer (filter (\<lambda>p. Some (p_id p) \<noteq> activeId) ps)"
  using assms
proof (induction ps arbitrary: m now)
  case Nil
  show ?case by simp
next
  case (Cons p ps)
  show ?case
  proof (cases "Some (p_id p) = activeId")
    case True
    with Cons.prems have "\<forall>p\<in>set ps. get m (p_id p) = Some p"
      and "\<forall>p\<in>set (filter (\<lambda>p. Some (p_id p) \<noteq> activeId) ps). \<forall>t.
           lookup_attempt p identifier t = answer p"
      by simp_all
    from Cons.IH [OF this, of now] True show ?thesis by simp
  next
    case False
    let ?idType = "detectIdentifierType identifier"
    obtain out m1 t where run: "try_lookup m p identifier ?idType now (tm (p_id p)) = (out, m1, t)"
      by (cases "try_lookup m p identifier ?idType now (tm (p_id p))") auto
    from Cons.prems have here: "get m (p_id p) = Some p" by simp
    from Cons.prems(2) False have steady: "lookup_attempt p identifier t = answer p" for t
      by simp
    from try_lookup_outcome [OF here, of "identifier" now "tm (p_id p)"] run
    have out: "out = (case answer p of
        Returns found \<Rightarrow> Returns found
      | Throws err \<Rightarrow> (case read_message err of Throws e \<Rightarrow> Throws e | Returns u \<Rightarrow> Returns None))"
      by (simp add: steady)
    from get_try_lookup [of m p "identifier" ?idType now "tm (p_id p)"] run
    have "get m1 k = get m k" for k by simp
    with Cons.prems have regs: "\<forall>p\<in>set ps. get m1 (p_id p) = Some p" by simp
    from Cons.prems(2) False
    have rest: "\<forall>p\<in>set (filter (\<lambda>p. Some (p_id p) \<noteq> activeId) ps). \<forall>t.
           lookup_attempt p identifier t = answer p"
      by simp
    note IH = Cons.IH [OF regs rest, of t]
    show ?thesis
      using False by (simp add: run out IH split: option.splits outcome.splits)
  qed
qed

lemma lookup_first_found:
  assumes "registry_ok m"
    and steady: "\<forall>p\<in>set (lookup_candidates m). \<forall>t. lookup_attempt p identifier t = answer p"
  shows "fst (lookup m identifier now tm) = first_found answer (lookup_candidates m)"
proof -
  define ps where "ps = map reg_plugin
     (filter (\<lambda>reg. \<not> (True \<and> \<not> enabled reg) \<and> declares (reg_plugin reg) CapLookup)
        (map_values (plugins m)))"
  let ?idType = "detectIdentifierType identifier"
  have listed: "list_plugins m True (Some CapLookup) = Returns ps"
    unfolding ps_def by (rule list_plugins_capability [OF assms(1)])
  have regs: "\<forall>p\<in>set ps. get m (p_id p) = Some p"
    unfolding ps_def by (rule registered_listed [OF assms(1)])
  have cands: "lookup_candidates m =
     (case getActive m of
        None \<Rightarrow> []
      | Some active \<Rightarrow> if declares active CapLookup then [active] else [])
     @ filter (\<lambda>p. Some (p_id p) \<noteq> map_option p_id (getActive m)) ps"
    unfolding ps_def by (rule lookup_candidates_listed)
  from steady have others: "\<forall>p\<in>set (filter (\<lambda>p. Some (p_id p) \<noteq> map_option p_id (getActive m)) ps).
      \<forall>t. lookup_attempt p identifier t = answer p"
    unfolding cands by simp
  show ?thesis
  proof (cases "getActive m")
    case None
    with others have "\<forall>p\<in>set (filter (\<lambda>p. Some (p_id p) \<noteq> None) ps).
      \<forall>t. lookup_attempt p identifier t = answer p"
      by simp
    from lookup_loop_first_found [OF regs this, of tm now] None show ?thesis
      by (simp add: lookup_def listed cands)
  next
    case (Some active)
    with others have rest: "\<forall>p\<in>set (filter (\<lambda>p. Some (p_id p) \<noteq> Some (p_id active)) ps).
      \<forall>t. lookup_attempt p identifier t = answer p"
      by simp
    from active_registered [OF assms(1) Some] obtain caps where
      here: "get m (p_id active) = Some active" and caps: "p_capabilities active = Some caps"
      by blast
    show ?thesis
    proof (cases "cap_lookup caps")
      case False
      from lookup_loop_first_found [OF regs rest, of tm now] False Some caps show ?thesis
        by (simp add: lookup_def listed cands declares_def)
    next
      case True
      obtain out m1 t where run:
        "try_lookup m active identifier ?idType now (tm (p_id active)) = (out, m1, t)"
        by (cases "try_lookup m active identifier ?idType now (tm (p_id active))") auto
      from True Some caps have "active \<in> set (lookup_candidates m)"
        by (simp add: cands declares_def)
      with steady have first: "lookup_attempt active identifier t = answer active" for t
        by simp
      from try_lookup_outcome [OF here, of "identifier" now "tm (p_id active)"] run
      have out: "out = (case answer active of
          Returns found \<Rightarrow> Returns found
        | Throws err \<Rightarrow> (case read_message err of Throws e \<Rightarrow> Throws e | Returns u \<Rightarrow> Returns None))"
        by (simp add: first)
      from get_try_lookup [of m active "identifier" ?idType now "tm (p_id active)"] run
      have "get m1 k = get m k" for k by simp
      with regs have "\<forall>p\<in>set ps. get m1 (p_id p) = Some p" by simp
      note loop = lookup_loop_first_found [OF this rest, of tm t]
      show ?thesis
        using True Some caps
        by (simp add: lookup_def listed cands declares_def run out loop
            split: option.splits outcome.splits)
    qed
  qed
qed

subsection \<open>The example of the specification\<close>

lemma lookup_example_eq:
  "lookup_example f =
     \<lparr>plugins =
        [(''ads'', \<lparr>reg_id = ''ads'', reg_plugin = looking_plugin ''ads'' f,
                     enabled = True, registeredAt = 0\<rparr>),
         (''arxiv'', \<lparr>reg_id = ''arxiv'',
                     reg_plugin = looking_plugin ''arxiv'' (\<lambda>t s. Returns (Some found_paper)),
                     enabled = True, registeredAt = 1\<rparr>)],
      activePluginId = Some ''ads'', lastRequestTime = Map.empty\<rparr>"
  by (simp add: lookup_example_def looking_plugin_def manager_defs)

lemma doi_example: "detectIdentifierType (units ''10.1234/x'') = Doi"
  by (simp add: classifier_defs)

lemmas lookup_defs =
  lookup_def list_plugins_def map_values_def getActive_def get_def map_get_def try_lookup_def
  lookupWithPlugin_def enforceRateLimit_def dispatch_lookup_def read_message_def
  getMinDelay_def delays_def sleep_def timer_delay_def no_lag_def Let_def

lemma lookup_fallback_example:
  "fst (lookup (lookup_example (\<lambda>t s. Returns None)) (units ''10.1234/x'') 1000 (\<lambda>k. no_lag))
     = Returns (Some found_paper)"
  by (simp add: lookup_example_eq looking_plugin_def doi_example lookup_defs example_defs)

text \<open>
  C2 fails on the code where it says that a plugin's error is never propagated. With the
  DOI \<open>10.1234/x\<close> and two lookup-capable plugins, when the active plugin's
  \<open>getByDOI\<close> rejects with \<open>undefined\<close>, the \<open>catch\<close> block of \<open>lookup\<close> reads
  \<open>err.message\<close>, that read throws a \<open>TypeError\<close>, and \<open>lookup\<close> rejects with it
  although the second plugin has the paper. When the same method throws an \<open>Error\<close>
  object, the error counts as a miss and the second plugin's paper is returned.
\<close>

theorem lookup_propagates_nullish_throw:
  "detectIdentifierType (units ''10.1234/x'') = Doi
   \<and> map fst (plugins (lookup_example (\<lambda>t s. Throws (ThrownValue JUndefined))))
       = [''ads'', ''arxiv'']
   \<and> fst (lookup (lookup_example (\<lambda>t s. Throws (ThrownValue JUndefined)))
            (units ''10.1234/x'') 1000 (\<lambda>k. no_lag))
     = Throws (ErrorObj ''TypeError: Cannot read properties of undefined'')
   \<and> fst (lookup (lookup_example (\<lambda>t s. Throws (ErrorObj ''HTTP 503'')))
            (units ''10.1234/x'') 1000 (\<lambda>k. no_lag))
     = Returns (Some found_paper)"
  by (simp add: lookup_example_eq looking_plugin_def doi_example lookup_defs example_defs)

section \<open>Spacing of the dispatched calls\<close>













end
